theory Spec2Isabelle
  imports Complex_Main "HOL-Library.Word" "HOL-Library.Log_Nat"
begin

section \<open>Constants of \<open>lib/process.go\<close>\<close>

text \<open>
  Go's \<open>int\<close> is 64 bits wide on the \<open>js/wasm\<close> target the repository is built for.
  Lengths, coordinates and sizes are modelled as \<open>int\<close>; every product formed by the
  renderer is bounded by sixteen times the length of a string held in memory, far from
  \<open>2 ^ 63\<close>. Strings are byte strings, as Go's \<open>len\<close> counts them.
\<close>

definition MaxImageSize :: int where "MaxImageSize = 50 * 1024 * 1024"
definition MaxOutputSize :: int where "MaxOutputSize = 10 * 1024 * 1024"
definition MaxASCIIChars :: int where "MaxASCIIChars = 5000000"
definition MaxASCIIDimension :: int where "MaxASCIIDimension = 500"
definition maxStyledElements :: int where "maxStyledElements = 100000"

definition lineHeight :: int where "lineHeight = 16"
definition charWidth :: int where "charWidth = 16"
definition fontSize :: int where "fontSize = 16"
definition paddingTop :: int where "paddingTop = - 2"
definition paddingBottom :: int where "paddingBottom = 2"
definition paddingLeft :: int where "paddingLeft = 1"
definition paddingRight :: int where "paddingRight = - 6"

lemmas layout_defs =
  lineHeight_def charWidth_def fontSize_def paddingTop_def paddingBottom_def
  paddingLeft_def paddingRight_def

section \<open>Errors\<close>

text \<open>
  The source returns \<open>fmt.Errorf\<close> values; there is one constructor for each message,
  named after the failure kind the specification gives it, with the numbers the message
  prints.
  \<^item> \<open>EmptyInput_Image\<close>: "image data is empty"
  \<^item> \<open>InputTooLarge n m\<close>: "image data is too large: n bytes (max: m)"
  \<^item> \<open>InvalidOption\<close>: "target width must be positive"
  \<^item> \<open>DecodeError e\<close>: "failed to decode image: e"
  \<^item> \<open>DecodedNil\<close>: "decoded image is nil"
  \<^item> \<open>InvalidDimensions w h\<close>: "invalid image dimensions: wxh"
  \<^item> \<open>ConversionFailed\<close>: "failed to convert image to ASCII"
  \<^item> \<open>OutputTooLarge_Ascii n m\<close>: "ASCII output is too large: n characters (max: m)"
  \<^item> \<open>EmptyInput_Ascii\<close>: "ASCII string is empty"
  \<^item> \<open>ParseError e\<close>: "failed to parse ANSI string: e"
  \<^item> \<open>StyledNil\<close>: "styled text is nil after parsing"
  \<^item> \<open>TooManyElements n m\<close>: "too many styled text elements: n (max: m)"
  \<^item> \<open>NilInput\<close>: "styledText is nil"
  \<^item> \<open>OutputTooLarge_SVG n m\<close>: "output SVG is too large: n bytes (max: m)"
\<close>

datatype error =
    EmptyInput_Image
  | InputTooLarge int int
  | InvalidOption
  | DecodeError string
  | DecodedNil
  | InvalidDimensions int int
  | ConversionFailed
  | OutputTooLarge_Ascii int int
  | EmptyInput_Ascii
  | ParseError string
  | StyledNil
  | TooManyElements int int
  | NilInput
  | OutputTooLarge_SVG int int

section \<open>Styled text\<close>

text \<open>
  \<open>ansi.Col\<close> and \<open>ansi.StyledText\<close> are declared by the ANSI parser library; the
  repository reads \<open>Hex\<close> of a colour and \<open>Label\<close>, \<open>FgCol\<close>, \<open>BgCol\<close> and
  \<open>Style\<close> of a block, and these are the fields kept. \<open>FgCol\<close> and \<open>BgCol\<close> are
  pointers: \<open>None\<close> is \<open>nil\<close>.
\<close>

record Col =
  Hex :: string

record StyledText =
  Label :: string
  FgCol :: "Col option"
  BgCol :: "Col option"
  Style :: int

section \<open>\<open>splitStyledTextByLine\<close>\<close>

text \<open>\<open>strings.Split(s, "\n")\<close>: the pieces between newlines, one more than there are
  newlines; the empty string gives one empty piece.\<close>

fun split_nl :: "string \<Rightarrow> string list" where
  "split_nl [] = [[]]"
| "split_nl (c # cs) =
     (if c = CHR 0x0A then [] # split_nl cs
      else (case split_nl cs of
              [] \<Rightarrow> [[c]]
            | p # ps \<Rightarrow> (c # p) # ps))"

text \<open>The block allocated for a non-empty part.\<close>

definition newBlock :: "StyledText \<Rightarrow> string \<Rightarrow> StyledText" where
  "newBlock block part =
     \<lparr>Label = part, FgCol = FgCol block, BgCol = BgCol block, Style = Style block\<rparr>"

text \<open>The inner loop over \<open>parts\<close>; the state is \<open>(lines, currentLine)\<close>, and
  \<open>i < len(parts) - 1\<close> holds exactly when parts remain after the current one.\<close>

fun split_parts ::
  "StyledText \<Rightarrow> string list \<Rightarrow> StyledText list list \<times> StyledText list
     \<Rightarrow> StyledText list list \<times> StyledText list" where
  "split_parts block [] st = st"
| "split_parts block (part # rest) (lines, currentLine) =
     (let currentLine' =
            (if part \<noteq> [] then currentLine @ [newBlock block part] else currentLine)
      in if rest \<noteq> [] then split_parts block rest (lines @ [currentLine'], [])
         else split_parts block rest (lines, currentLine'))"

text \<open>The outer loop over the blocks; a \<open>nil\<close> block is skipped.\<close>

fun split_blocks ::
  "StyledText option list \<Rightarrow> StyledText list list \<times> StyledText list
     \<Rightarrow> StyledText list list \<times> StyledText list" where
  "split_blocks [] st = st"
| "split_blocks (None # bs) st = split_blocks bs st"
| "split_blocks (Some block # bs) st =
     split_blocks bs (split_parts block (split_nl (Label block)) st)"

definition splitStyledTextByLine :: "StyledText option list \<Rightarrow> StyledText list list" where
  "splitStyledTextByLine styledText =
     (case split_blocks styledText ([], []) of
        (lines, currentLine) \<Rightarrow>
          if length currentLine > 0 then lines @ [currentLine] else lines)"

section \<open>The canvas\<close>

text \<open>
  The SVG library writes one element for each call on the canvas. The calls the
  repository makes are recorded in order; their serialisation belongs to the library.
\<close>

datatype svg_op =
    Start int int
  | Rect int int int int string
  | Text int int string string
  | End

section \<open>\<open>calculateSVGDimensions\<close>\<close>

fun currentLineLength :: "StyledText list \<Rightarrow> int \<Rightarrow> int" where
  "currentLineLength [] n = n"
| "currentLineLength (styledChar # rest) n =
     currentLineLength rest (n + int (length (Label styledChar)))"

fun maxLineLength :: "StyledText list list \<Rightarrow> int \<Rightarrow> int" where
  "maxLineLength [] m = m"
| "maxLineLength (line # rest) m =
     (let n = currentLineLength line 0
      in maxLineLength rest (if n > m then n else m))"

definition calculateSVGDimensions :: "StyledText list list \<Rightarrow> int \<times> int" where
  "calculateSVGDimensions lines =
     (let width = maxLineLength lines 0 * charWidth + paddingLeft + paddingRight;
          height = int (length lines) * lineHeight + paddingTop + paddingBottom;
          width' = (if width \<le> 0 then charWidth + paddingLeft + paddingRight else width);
          height' = (if height \<le> 0 then lineHeight + paddingTop + paddingBottom else height)
      in (width', height'))"

section \<open>\<open>renderLine\<close>\<close>

text \<open>\<open>%d\<close> of a non-negative number.\<close>

fun decimal :: "nat \<Rightarrow> string" where
  "decimal n =
     (if n < 10 then [char_of (48 + n)]
      else decimal (n div 10) @ [char_of (48 + n mod 10)])"

definition textStyle :: "string \<Rightarrow> string" where
  "textStyle textColor =
     ''fill:'' @ textColor @ ''; font-family:monospace; font-size:''
       @ decimal (nat fontSize) @ ''px; dominant-baseline:text-before-edge''"

definition textColorOf :: "StyledText \<Rightarrow> string" where
  "textColorOf styledChar =
     (case FgCol styledChar of
        None \<Rightarrow> ''#FFFFFF''
      | Some c \<Rightarrow> if Hex c \<noteq> [] then Hex c else ''#FFFFFF'')"

text \<open>The loop of \<open>renderLine\<close>: the calls made on the canvas, in order, and the cursor
  \<open>currentX\<close> when the loop ends.\<close>

fun renderRuns :: "StyledText list \<Rightarrow> int \<Rightarrow> int \<Rightarrow> svg_op list \<times> int" where
  "renderRuns [] yPos currentX = ([], currentX)"
| "renderRuns (styledChar # rest) yPos currentX =
     (if Label styledChar = [] then renderRuns rest yPos currentX
      else if Label styledChar = '' '' then renderRuns rest yPos (currentX + charWidth)
      else (case renderRuns rest yPos
                   (currentX + int (length (Label styledChar)) * charWidth) of
              (ops, x) \<Rightarrow>
                (Text currentX yPos (Label styledChar) (textStyle (textColorOf styledChar))
                   # ops, x)))"

definition renderLine :: "StyledText list \<Rightarrow> int \<Rightarrow> int \<Rightarrow> svg_op list" where
  "renderLine line yPos startX = fst (renderRuns line yPos startX)"

section \<open>\<open>renderToSVG\<close>\<close>

fun renderLines :: "StyledText list list \<Rightarrow> int \<Rightarrow> svg_op list" where
  "renderLines [] yPos = []"
| "renderLines (line # rest) yPos =
     renderLine line yPos paddingLeft @ renderLines rest (yPos + lineHeight)"

text \<open>The calls made on the canvas for a non-nil slice of blocks.\<close>

definition canvasOps :: "StyledText option list \<Rightarrow> string \<Rightarrow> svg_op list" where
  "canvasOps styledText backgroundColor =
     (let lines = splitStyledTextByLine styledText;
          (svgWidth, svgHeight) = calculateSVGDimensions lines
      in [Start svgWidth svgHeight,
          Rect 0 0 svgWidth svgHeight (''fill:'' @ backgroundColor)]
         @ renderLines lines paddingTop @ [End])"

text \<open>
  \<open>renderToSVG\<close> takes a buffer from the pool, empties it, lets the canvas write to it and
  puts it back when it returns. \<open>emit\<close> is the library's serialisation of one call;
  \<open>pooled\<close> is what the buffer handed out by the pool holds (a new buffer is empty). The
  result is the returned value and the buffer as it goes back to the pool. A nil slice
  (\<open>None\<close>) is refused before the pool is touched.
\<close>

definition writeOps :: "(svg_op \<Rightarrow> string) \<Rightarrow> string \<Rightarrow> svg_op list \<Rightarrow> string" where
  "writeOps emit buffer ops = foldl (\<lambda>b op. b @ emit op) buffer ops"

definition renderToSVG ::
  "(svg_op \<Rightarrow> string) \<Rightarrow> string \<Rightarrow> StyledText option list option \<Rightarrow> string
     \<Rightarrow> (error + string) \<times> string" where
  "renderToSVG emit pooled styledText backgroundColor =
     (case styledText of
        None \<Rightarrow> (Inl NilInput, pooled)
      | Some blocks \<Rightarrow>
          (let buffer = [];
               buffer' = writeOps emit buffer (canvasOps blocks backgroundColor)
           in (Inr buffer', buffer')))"

section \<open>\<open>float64\<close>\<close>

text \<open>
  A \<open>float64\<close> is an IEEE 754 binary64 value: not-a-number, an infinity, or a finite
  value, held as the rational it denotes. Negative zero is not told apart from zero: the
  source never divides by a zero that could be negative, and \<open>math.Max(0.0, x)\<close> gives
  the positive one.
\<close>

datatype float64 = NaN | NInf | Fin rat | PInf

definition pow2 :: "int \<Rightarrow> rat" where
  "pow2 e = (if 0 \<le> e then 2 ^ nat e else 1 / 2 ^ nat (- e))"

text \<open>For \<open>x > 0\<close>, the exponent \<open>e\<close> with \<open>2\<^sup>e \<le> x < 2\<^sup>e\<^sup>+\<^sup>1\<close>: the difference of the bit
  lengths of numerator and denominator, or one less.\<close>

definition ilog2 :: "rat \<Rightarrow> int" where
  "ilog2 x =
     (case quotient_of x of
        (p, q) \<Rightarrow>
          (let d = int (floorlog 2 (nat p)) - int (floorlog 2 (nat q))
           in if pow2 d \<le> x then d else d - 1))"

text \<open>Rounding to the nearest integer, a tie going to the even one.\<close>

definition rne :: "rat \<Rightarrow> int" where
  "rne q =
     (let f = \<lfloor>q\<rfloor>; d = q - of_int f
      in if d < 1 / 2 then f
         else if 1 / 2 < d then f + 1
         else if even f then f else f + 1)"

text \<open>
  The binary64 value nearest to a rational (ties to even) when the exponent has no upper
  limit: 53 significant bits for a normal number, multiples of \<open>2\<^sup>-\<^sup>1\<^sup>0\<^sup>7\<^sup>4\<close> below
  \<open>2\<^sup>-\<^sup>1\<^sup>0\<^sup>2\<^sup>2\<close>. \<open>round64\<close> is the rounding of every arithmetic operation: a result of
  magnitude \<open>2\<^sup>1\<^sup>0\<^sup>2\<^sup>4\<close> or more is an infinity.
\<close>

definition fl :: "rat \<Rightarrow> rat" where
  "fl x =
     (if x = 0 then 0
      else (let e = max (ilog2 \<bar>x\<bar>) (- 1022); u = pow2 (e - 52)
            in of_int (rne (x / u)) * u))"

definition round64 :: "rat \<Rightarrow> float64" where
  "round64 x =
     (let y = fl x
      in if y = 0 then Fin 0
         else if 1024 \<le> ilog2 \<bar>y\<bar> then (if 0 < y then PInf else NInf)
         else Fin y)"

fun f_neg :: "float64 \<Rightarrow> float64" where
  "f_neg NaN = NaN"
| "f_neg NInf = PInf"
| "f_neg PInf = NInf"
| "f_neg (Fin x) = Fin (- x)"

fun f_add :: "float64 \<Rightarrow> float64 \<Rightarrow> float64" where
  "f_add (Fin x) (Fin y) = round64 (x + y)"
| "f_add NaN _ = NaN"
| "f_add _ NaN = NaN"
| "f_add PInf NInf = NaN"
| "f_add NInf PInf = NaN"
| "f_add PInf _ = PInf"
| "f_add _ PInf = PInf"
| "f_add NInf _ = NInf"
| "f_add _ NInf = NInf"

definition f_sub :: "float64 \<Rightarrow> float64 \<Rightarrow> float64" where
  "f_sub a b = f_add a (f_neg b)"

text \<open>The sign of an infinite product or quotient.\<close>

definition signedInf :: "bool \<Rightarrow> float64" where
  "signedInf negative = (if negative then NInf else PInf)"

fun f_mul :: "float64 \<Rightarrow> float64 \<Rightarrow> float64" where
  "f_mul (Fin x) (Fin y) = round64 (x * y)"
| "f_mul NaN _ = NaN"
| "f_mul _ NaN = NaN"
| "f_mul (Fin x) b = (if x = 0 then NaN else signedInf ((x < 0) \<noteq> (b = NInf)))"
| "f_mul a (Fin y) = (if y = 0 then NaN else signedInf ((a = NInf) \<noteq> (y < 0)))"
| "f_mul a b = signedInf ((a = NInf) \<noteq> (b = NInf))"

fun f_div :: "float64 \<Rightarrow> float64 \<Rightarrow> float64" where
  "f_div (Fin x) (Fin y) =
     (if y = 0 then (if x = 0 then NaN else signedInf (x < 0))
      else round64 (x / y))"
| "f_div NaN _ = NaN"
| "f_div _ NaN = NaN"
| "f_div (Fin x) b = Fin 0"
| "f_div a (Fin y) = signedInf ((a = NInf) \<noteq> (y < 0))"
| "f_div a b = NaN"

text \<open>\<open>math.Floor\<close>.\<close>

fun f_floor :: "float64 \<Rightarrow> float64" where
  "f_floor (Fin x) = Fin (of_int \<lfloor>x\<rfloor>)"
| "f_floor a = a"

text \<open>The comparisons \<open><\<close> and \<open>!=\<close>; a comparison with not-a-number is false, and
  not-a-number differs from everything.\<close>

fun f_less :: "float64 \<Rightarrow> float64 \<Rightarrow> bool" where
  "f_less NaN _ = False"
| "f_less _ NaN = False"
| "f_less (Fin x) (Fin y) = (x < y)"
| "f_less NInf b = (b \<noteq> NInf)"
| "f_less a PInf = (a \<noteq> PInf)"
| "f_less a b = False"

definition f_neq :: "float64 \<Rightarrow> float64 \<Rightarrow> bool" where
  "f_neq a b = (a = NaN \<or> b = NaN \<or> a \<noteq> b)"

text \<open>
  \<open>math.Min\<close> and \<open>math.Max\<close>, with the special cases in the order the package documents
  them: \<open>Min(x, -Inf) = -Inf\<close>, then \<open>Min(x, NaN) = NaN\<close>; \<open>Max(x, +Inf) = +Inf\<close>, then
  \<open>Max(x, NaN) = NaN\<close>.
\<close>

fun math_Min :: "float64 \<Rightarrow> float64 \<Rightarrow> float64" where
  "math_Min NInf _ = NInf"
| "math_Min _ NInf = NInf"
| "math_Min NaN _ = NaN"
| "math_Min _ NaN = NaN"
| "math_Min PInf b = b"
| "math_Min a PInf = a"
| "math_Min (Fin x) (Fin y) = Fin (min x y)"

fun math_Max :: "float64 \<Rightarrow> float64 \<Rightarrow> float64" where
  "math_Max PInf _ = PInf"
| "math_Max _ PInf = PInf"
| "math_Max NaN _ = NaN"
| "math_Max _ NaN = NaN"
| "math_Max NInf b = b"
| "math_Max a NInf = a"
| "math_Max (Fin x) (Fin y) = Fin (max x y)"

text \<open>Conversions from integers round like any operation.\<close>

definition float64_of_int :: "int \<Rightarrow> float64" where
  "float64_of_int n = round64 (of_int n)"

text \<open>
  Conversions to integers discard the fraction. Where the value does not fit the result
  type (or is not a number) Go leaves the result to the implementation: it is whatever
  the platform's conversion \<open>conv\<close> returns.
\<close>

definition trunc :: "rat \<Rightarrow> int" where
  "trunc q = (if 0 \<le> q then \<lfloor>q\<rfloor> else \<lceil>q\<rceil>)"

definition int_of_float64 :: "(float64 \<Rightarrow> 64 word) \<Rightarrow> float64 \<Rightarrow> int" where
  "int_of_float64 conv a =
     (case a of
        Fin q \<Rightarrow>
          if - (2 ^ 63) \<le> trunc q \<and> trunc q < 2 ^ 63 then trunc q
          else sint (conv a)
      | _ \<Rightarrow> sint (conv a))"

definition uint32_of_float64 :: "(float64 \<Rightarrow> 32 word) \<Rightarrow> float64 \<Rightarrow> 32 word" where
  "uint32_of_float64 conv a =
     (case a of
        Fin q \<Rightarrow>
          if 0 \<le> trunc q \<and> trunc q < 2 ^ 32 then word_of_int (trunc q)
          else conv a
      | _ \<Rightarrow> conv a)"

definition uint8_of_float64 :: "(float64 \<Rightarrow> 8 word) \<Rightarrow> float64 \<Rightarrow> 8 word" where
  "uint8_of_float64 conv a =
     (case a of
        Fin q \<Rightarrow>
          if 0 \<le> trunc q \<and> trunc q < 2 ^ 8 then word_of_int (trunc q)
          else conv a
      | _ \<Rightarrow> conv a)"

section \<open>Colours and images\<close>

text \<open>
  A \<open>color.Color\<close> is an interface with one method, \<open>RGBA\<close>, returning four
  alpha-premultiplied 16-bit channels as \<open>uint32\<close>. The implementations the code
  builds are \<open>color.RGBA\<close> (four bytes) and \<open>color.Gray16\<close> (\<open>color.White\<close> is
  \<open>Gray16{0xffff}\<close>); the pixels of a decoded image are of any implementation, given by
  what their \<open>RGBA\<close> method returns.
\<close>

datatype color =
    RGBA8 "8 word" "8 word" "8 word" "8 word"
  | Gray16 "16 word"
  | Other "32 word" "32 word" "32 word" "32 word"

definition color_White :: color where
  "color_White = Gray16 0xFFFF"

text \<open>\<open>r = uint32(c.R); r |= r << 8\<close>.\<close>

definition widen :: "8 word \<Rightarrow> 32 word" where
  "widen c = or (ucast c) (push_bit 8 (ucast c))"

fun RGBA :: "color \<Rightarrow> 32 word \<times> 32 word \<times> 32 word \<times> 32 word" where
  "RGBA (RGBA8 r g b a) = (widen r, widen g, widen b, widen a)"
| "RGBA (Gray16 y) = (ucast y, ucast y, ucast y, 0xFFFF)"
| "RGBA (Other r g b a) = (r, g, b, a)"

text \<open>\<open>color.RGBAModel.Convert\<close>: a \<open>color.RGBA\<close> is returned as it is, any other colour
  by the high byte of each channel.\<close>

fun RGBAModel_Convert :: "color \<Rightarrow> color" where
  "RGBAModel_Convert (RGBA8 r g b a) = RGBA8 r g b a"
| "RGBAModel_Convert c =
     (case RGBA c of
        (r, g, b, a) \<Rightarrow>
          RGBA8 (ucast (drop_bit 8 r)) (ucast (drop_bit 8 g))
                (ucast (drop_bit 8 b)) (ucast (drop_bit 8 a)))"

text \<open>An image: its bounds and its \<open>At\<close> method.\<close>

record image =
  MinX :: int
  MinY :: int
  MaxX :: int
  MaxY :: int
  At :: "int \<Rightarrow> int \<Rightarrow> color"

definition Dx :: "image \<Rightarrow> int" where "Dx img = MaxX img - MinX img"
definition Dy :: "image \<Rightarrow> int" where "Dy img = MaxY img - MinY img"

text \<open>\<open>image.NewRGBA(bounds)\<close>: every pixel is the zero \<open>color.RGBA\<close>. \<open>Set\<close> stores the
  converted colour at a point inside the bounds and does nothing outside.\<close>

definition NewRGBA :: "image \<Rightarrow> image" where
  "NewRGBA img =
     \<lparr>MinX = MinX img, MinY = MinY img, MaxX = MaxX img, MaxY = MaxY img,
      At = (\<lambda>x y. RGBA8 0 0 0 0)\<rparr>"

definition inBounds :: "image \<Rightarrow> int \<Rightarrow> int \<Rightarrow> bool" where
  "inBounds img x y \<longleftrightarrow> MinX img \<le> x \<and> x < MaxX img \<and> MinY img \<le> y \<and> y < MaxY img"

definition Set_RGBA :: "image \<Rightarrow> int \<Rightarrow> int \<Rightarrow> color \<Rightarrow> image" where
  "Set_RGBA result x y c =
     (if inBounds result x y
      then result\<lparr>At := (\<lambda>x' y'. if x' = x \<and> y' = y then RGBAModel_Convert c
                                  else At result x' y')\<rparr>
      else result)"

section \<open>\<open>parseHexColor\<close>\<close>

text \<open>
  \<open>strconv.ParseInt(s, 16, 64)\<close> on a string of two bytes: an optional sign, then one or
  more hexadecimal digits of either case; anything else is an error. (Underscores and a
  base prefix are accepted only when the base argument is 0.)
\<close>

definition hexDigit :: "char \<Rightarrow> int option" where
  "hexDigit c =
     (let n = of_char c :: nat
      in if 48 \<le> n \<and> n \<le> 57 then Some (int n - 48)
         else if 97 \<le> n \<and> n \<le> 102 then Some (int n - 97 + 10)
         else if 65 \<le> n \<and> n \<le> 70 then Some (int n - 65 + 10)
         else None)"

fun hexDigits :: "string \<Rightarrow> int \<Rightarrow> int option" where
  "hexDigits [] acc = Some acc"
| "hexDigits (c # cs) acc =
     (case hexDigit c of
        None \<Rightarrow> None
      | Some d \<Rightarrow> hexDigits cs (acc * 16 + d))"

definition ParseInt16 :: "string \<Rightarrow> int option" where
  "ParseInt16 s =
     (case s of
        [] \<Rightarrow> None
      | c # cs \<Rightarrow>
          if c = CHR ''+'' then (if cs = [] then None else hexDigits cs 0)
          else if c = CHR ''-'' then
            (if cs = [] then None else map_option uminus (hexDigits cs 0))
          else hexDigits s 0)"

text \<open>\<open>strings.TrimPrefix(hex, "#")\<close>.\<close>

definition TrimPrefix_hash :: "string \<Rightarrow> string" where
  "TrimPrefix_hash hex = (case hex of c # cs \<Rightarrow> if c = CHR ''#'' then cs else hex | [] \<Rightarrow> hex)"

text \<open>\<open>parseHexColor\<close>; \<open>None\<close> is the nil colour. \<open>uint8(r)\<close> of an \<open>int64\<close> keeps the
  low eight bits.\<close>

definition parseHexColor :: "string \<Rightarrow> color option" where
  "parseHexColor hex0 =
     (let hex1 = TrimPrefix_hash hex0;
          hex = (if length hex1 = 3
                 then [hex1 ! 0, hex1 ! 0, hex1 ! 1, hex1 ! 1, hex1 ! 2, hex1 ! 2]
                 else hex1)
      in if length hex \<noteq> 6 then None
         else (case (ParseInt16 (take 2 hex), ParseInt16 (take 2 (drop 2 hex)),
                     ParseInt16 (take 2 (drop 4 hex))) of
                 (Some r, Some g, Some b) \<Rightarrow>
                   Some (RGBA8 (word_of_int r) (word_of_int g) (word_of_int b) 0xFF)
               | _ \<Rightarrow> None))"

section \<open>\<open>handleTransparency\<close>\<close>

text \<open>
  The conversions whose result Go leaves to the implementation when the value does not
  fit, one for each result type the code converts to.
\<close>

record platform =
  conv_int :: "float64 \<Rightarrow> 64 word"
  conv_uint32 :: "float64 \<Rightarrow> 32 word"
  conv_uint8 :: "float64 \<Rightarrow> 8 word"

definition float64_of_uint32 :: "32 word \<Rightarrow> float64" where
  "float64_of_uint32 w = float64_of_int (uint w)"

text \<open>One channel of the blend:
  \<open>uint8(((float64(c)/65535.0)*alphaFactor + (float64(tc)/65535.0)*(1-alphaFactor)) * 255)\<close>,
  every operation rounded on its own (the WebAssembly target has no fused
  multiply-add).\<close>

definition blend :: "platform \<Rightarrow> 32 word \<Rightarrow> 32 word \<Rightarrow> float64 \<Rightarrow> 8 word" where
  "blend pf c tc alphaFactor =
     uint8_of_float64 (conv_uint8 pf)
       (f_mul
          (f_add (f_mul (f_div (float64_of_uint32 c) (Fin 65535)) alphaFactor)
                 (f_mul (f_div (float64_of_uint32 tc) (Fin 65535))
                        (f_sub (Fin 1) alphaFactor)))
          (Fin 255))"

text \<open>The colour handed to \<open>result.Set\<close> for a pixel \<open>originalColor\<close>.\<close>

definition pixelColor :: "platform \<Rightarrow> color \<Rightarrow> 32 word \<Rightarrow> color \<Rightarrow> color" where
  "pixelColor pf tColor alphaThreshold originalColor =
     (case RGBA originalColor of
        (r, g, b, a) \<Rightarrow>
          if a < alphaThreshold then tColor
          else if a < 0xFFFF then
            (let alphaFactor = f_div (float64_of_uint32 a) (Fin 65535)
             in case RGBA tColor of
                  (tr, tg, tb, ta) \<Rightarrow>
                    RGBA8 (blend pf r tr alphaFactor) (blend pf g tg alphaFactor)
                          (blend pf b tb alphaFactor) 255)
          else originalColor)"

text \<open>The loop over \<open>x\<close> of one row, and the loop over \<open>y\<close>.\<close>

function rowLoop ::
  "platform \<Rightarrow> image \<Rightarrow> color \<Rightarrow> 32 word \<Rightarrow> int \<Rightarrow> int \<Rightarrow> image \<Rightarrow> image" where
  "rowLoop pf img tColor alphaThreshold y x result =
     (if x < MaxX img
      then rowLoop pf img tColor alphaThreshold y (x + 1)
             (Set_RGBA result x y (pixelColor pf tColor alphaThreshold (At img x y)))
      else result)"
  by pat_completeness auto
termination
  by (relation "measure (\<lambda>(pf, img, tColor, alphaThreshold, y, x, result). nat (MaxX img - x))")
     auto

function colLoop ::
  "platform \<Rightarrow> image \<Rightarrow> color \<Rightarrow> 32 word \<Rightarrow> int \<Rightarrow> image \<Rightarrow> image" where
  "colLoop pf img tColor alphaThreshold y result =
     (if y < MaxY img
      then colLoop pf img tColor alphaThreshold (y + 1)
             (rowLoop pf img tColor alphaThreshold y (MinX img) result)
      else result)"
  by pat_completeness auto
termination
  by (relation "measure (\<lambda>(pf, img, tColor, alphaThreshold, y, result). nat (MaxY img - y))")
     auto

definition alphaThresholdOf :: "platform \<Rightarrow> float64 \<Rightarrow> 32 word" where
  "alphaThresholdOf pf threshold =
     uint32_of_float64 (conv_uint32 pf) (f_floor (f_mul threshold (Fin 65535)))"

definition substituteColor :: "string \<Rightarrow> color" where
  "substituteColor transparencyColorStr =
     (case parseHexColor transparencyColorStr of
        None \<Rightarrow> color_White
      | Some c \<Rightarrow> c)"

definition handleTransparency :: "platform \<Rightarrow> image \<Rightarrow> string \<Rightarrow> float64 \<Rightarrow> image" where
  "handleTransparency pf img transparencyColorStr threshold =
     colLoop pf img (substituteColor transparencyColorStr) (alphaThresholdOf pf threshold)
       (MinY img) (NewRGBA img)"

section \<open>Options\<close>

record Options =
  TargetWidth :: int
  Brightness :: float64
  Contrast :: float64
  Sharpen :: float64
  BackgroundColor :: string
  TransparencyColor :: string
  TransparencyThreshold :: float64

text \<open>\<open>validateInput\<close>; \<open>None\<close> is the nil error.\<close>

definition validateInput :: "8 word list \<Rightarrow> Options \<Rightarrow> error option" where
  "validateInput imageData opts =
     (if length imageData = 0 then Some EmptyInput_Image
      else if int (length imageData) > MaxImageSize
        then Some (InputTooLarge (int (length imageData)) MaxImageSize)
      else if TargetWidth opts \<le> 0 then Some InvalidOption
      else None)"

definition setDefaults :: "Options \<Rightarrow> Options" where
  "setDefaults o0 =
     (let o1 = (if BackgroundColor o0 = [] then o0\<lparr>BackgroundColor := ''#000000''\<rparr> else o0);
          o2 = (if TransparencyColor o1 = [] then o1\<lparr>TransparencyColor := ''#FFFFFF''\<rparr>
                else o1)
      in o2\<lparr>TransparencyThreshold :=
               math_Max (Fin 0) (math_Min (Fin 1) (TransparencyThreshold o2))\<rparr>)"

section \<open>The libraries\<close>

text \<open>
  The functions of other packages that the pipeline calls, taken as they are:
  \<open>image.Decode\<close> (an error text, or the image, which may be nil, and its format),
  \<open>imaging.Resize\<close> with the Lanczos filter, \<open>imaging.AdjustBrightness\<close>,
  \<open>imaging.AdjustContrast\<close>, \<open>imaging.Sharpen\<close>, the converter's
  \<open>Image2ASCIIString\<close> for a fixed width and height (the other options are constants),
  \<open>ansi.Parse\<close> (an error text, or a slice of block pointers, which may be nil and may
  hold nil pointers) and the serialisation of one canvas call.
\<close>

record libraries =
  image_Decode :: "8 word list \<Rightarrow> string + (image option \<times> string)"
  imaging_Resize :: "image \<Rightarrow> int \<Rightarrow> int \<Rightarrow> image"
  imaging_AdjustBrightness :: "image \<Rightarrow> float64 \<Rightarrow> image"
  imaging_AdjustContrast :: "image \<Rightarrow> float64 \<Rightarrow> image"
  imaging_Sharpen :: "image \<Rightarrow> float64 \<Rightarrow> image"
  Image2ASCIIString :: "image \<Rightarrow> int \<Rightarrow> int \<Rightarrow> string"
  ansi_Parse :: "string \<Rightarrow> string + StyledText option list option"
  svg_emit :: "svg_op \<Rightarrow> string"

text \<open>What the code sends to the browser console; it is never read back.\<close>

datatype console =
    Warn_VeryLargeAscii int
  | Log_LargeAscii int
  | Warn_ManyStyledElements int

section \<open>\<open>decodeImage\<close> and \<open>processImage\<close>\<close>

definition decodeImage :: "libraries \<Rightarrow> 8 word list \<Rightarrow> error + (image \<times> string)" where
  "decodeImage lib imageData =
     (case image_Decode lib imageData of
        Inl err \<Rightarrow> Inl (DecodeError err)
      | Inr (None, format) \<Rightarrow> Inl DecodedNil
      | Inr (Some img, format) \<Rightarrow>
          if Dx img \<le> 0 \<or> Dy img \<le> 0 then Inl (InvalidDimensions (Dx img) (Dy img))
          else Inr (img, format))"

definition maxProcessDimension :: int where "maxProcessDimension = 1024"

definition processImage :: "libraries \<Rightarrow> platform \<Rightarrow> image \<Rightarrow> Options \<Rightarrow> image" where
  "processImage lib pf img0 opts =
     (let originalWidth = Dx img0; originalHeight = Dy img0;
          img1 =
            (if originalWidth > maxProcessDimension \<or> originalHeight > maxProcessDimension
             then (let scale = f_div (float64_of_int maxProcessDimension)
                                 (float64_of_int (max originalWidth originalHeight));
                       newWidth = int_of_float64 (conv_int pf)
                                    (f_mul (float64_of_int originalWidth) scale);
                       newHeight = int_of_float64 (conv_int pf)
                                     (f_mul (float64_of_int originalHeight) scale);
                       newWidth' = (if newWidth < 1 then 1 else newWidth);
                       newHeight' = (if newHeight < 1 then 1 else newHeight)
                   in imaging_Resize lib img0 newWidth' newHeight')
             else img0);
          img2 = (if f_neq (Brightness opts) (Fin 0)
                  then imaging_AdjustBrightness lib img1 (Brightness opts) else img1);
          img3 = (if f_neq (Contrast opts) (Fin 0)
                  then imaging_AdjustContrast lib img2 (Contrast opts) else img2);
          img4 = (if f_neq (Sharpen opts) (Fin 0)
                  then imaging_Sharpen lib img3 (Sharpen opts) else img3)
      in handleTransparency pf img4 (TransparencyColor opts) (TransparencyThreshold opts))"

section \<open>\<open>convertToASCII\<close>\<close>

text \<open>
  The part of \<open>convertToASCII\<close> that computes \<open>options.FixedWidth\<close> and
  \<open>options.FixedHeight\<close> from the bounds of the image and \<open>targetWidth\<close>; \<open>fixedHeight\<close>
  is the height before the two cap adjustments.
\<close>

definition fixedHeight :: "platform \<Rightarrow> int \<Rightarrow> int \<Rightarrow> int \<Rightarrow> int" where
  "fixedHeight pf dx dy targetWidth =
     (let aspectRatio = f_div (float64_of_int dy) (float64_of_int dx);
          h = int_of_float64 (conv_int pf) (f_mul (float64_of_int targetWidth) aspectRatio)
      in if h < 1 then 1 else h)"

definition capWidth :: "platform \<Rightarrow> int \<times> int \<Rightarrow> int \<times> int" where
  "capWidth pf wh =
     (case wh of
        (FixedWidth, FixedHeight) \<Rightarrow>
          if FixedWidth > MaxASCIIDimension
          then (let scale = f_div (float64_of_int MaxASCIIDimension) (float64_of_int FixedWidth)
                in (MaxASCIIDimension,
                    int_of_float64 (conv_int pf) (f_mul (float64_of_int FixedHeight) scale)))
          else (FixedWidth, FixedHeight))"

definition capHeight :: "platform \<Rightarrow> int \<times> int \<Rightarrow> int \<times> int" where
  "capHeight pf wh =
     (case wh of
        (FixedWidth, FixedHeight) \<Rightarrow>
          if FixedHeight > MaxASCIIDimension
          then (let scale = f_div (float64_of_int MaxASCIIDimension) (float64_of_int FixedHeight)
                in (int_of_float64 (conv_int pf) (f_mul (float64_of_int FixedWidth) scale),
                    MaxASCIIDimension))
          else (FixedWidth, FixedHeight))"

definition asciiDimensions :: "platform \<Rightarrow> int \<Rightarrow> int \<Rightarrow> int \<Rightarrow> int \<times> int" where
  "asciiDimensions pf dx dy targetWidth =
     capHeight pf (capWidth pf (targetWidth, fixedHeight pf dx dy targetWidth))"

definition convertToASCII ::
  "libraries \<Rightarrow> platform \<Rightarrow> image \<Rightarrow> int \<Rightarrow> (error + string) \<times> console list" where
  "convertToASCII lib pf img targetWidth =
     (case asciiDimensions pf (Dx img) (Dy img) targetWidth of
        (FixedWidth, FixedHeight) \<Rightarrow>
          (let asciiString = Image2ASCIIString lib img FixedWidth FixedHeight;
               n = int (length asciiString)
           in if asciiString = [] then (Inl ConversionFailed, [])
              else if n > MaxASCIIChars then (Inl (OutputTooLarge_Ascii n MaxASCIIChars), [])
              else if n > 3000000 then (Inr asciiString, [Warn_VeryLargeAscii n])
              else if n > 1000000 then (Inr asciiString, [Log_LargeAscii n])
              else (Inr asciiString, [])))"

section \<open>\<open>parseANSI\<close>\<close>

text \<open>\<open>Parse\<close> is the library's \<open>ansi.Parse\<close>.\<close>

definition parseANSI ::
  "(string \<Rightarrow> string + StyledText option list option) \<Rightarrow> string
     \<Rightarrow> (error + StyledText option list) \<times> console list" where
  "parseANSI Parse asciiString =
     (if asciiString = [] then (Inl EmptyInput_Ascii, [])
      else (case Parse asciiString of
              Inl err \<Rightarrow> (Inl (ParseError err), [])
            | Inr None \<Rightarrow> (Inl StyledNil, [])
            | Inr (Some styledText) \<Rightarrow>
                (let n = int (length styledText)
                 in if n > maxStyledElements
                    then (Inl (TooManyElements n maxStyledElements), [])
                    else if n > 30000 then (Inr styledText, [Warn_ManyStyledElements n])
                    else (Inr styledText, []))))"

section \<open>\<open>ProcessImageToSVG\<close>\<close>

text \<open>
  The result is the returned value, the buffer of the pool as the call leaves it, and what
  went to the console.
\<close>

definition ProcessImageToSVG ::
  "libraries \<Rightarrow> platform \<Rightarrow> string \<Rightarrow> 8 word list \<Rightarrow> Options
     \<Rightarrow> (error + string) \<times> string \<times> console list" where
  "ProcessImageToSVG lib pf pooled imageData opts0 =
     (case validateInput imageData opts0 of
        Some err \<Rightarrow> (Inl err, pooled, [])
      | None \<Rightarrow>
          (let opts = setDefaults opts0
           in case decodeImage lib imageData of
                Inl err \<Rightarrow> (Inl err, pooled, [])
              | Inr (img, format) \<Rightarrow>
                  (let processedImg = processImage lib pf img opts
                   in case convertToASCII lib pf processedImg (TargetWidth opts) of
                        (Inl err, c1) \<Rightarrow> (Inl err, pooled, c1)
                      | (Inr asciiString, c1) \<Rightarrow>
                          (case parseANSI (ansi_Parse lib) asciiString of
                             (Inl err, c2) \<Rightarrow> (Inl err, pooled, c1 @ c2)
                           | (Inr styledText, c2) \<Rightarrow>
                               (case renderToSVG (svg_emit lib) pooled (Some styledText)
                                       (BackgroundColor opts) of
                                  (Inl err, pooled') \<Rightarrow> (Inl err, pooled', c1 @ c2)
                                | (Inr svgString, pooled') \<Rightarrow>
                                    if int (length svgString) > MaxOutputSize
                                    then (Inl (OutputTooLarge_SVG (int (length svgString))
                                                 MaxOutputSize),
                                          pooled', c1 @ c2)
                                    else (Inr svgString, pooled', c1 @ c2))))))"

section \<open>The text of lines and blocks\<close>

text \<open>The text of a line is the concatenation of the labels of its runs; the text of a
  slice of blocks is the concatenation of the labels of its non-nil blocks.\<close>

definition lineText :: "StyledText list \<Rightarrow> string" where
  "lineText line = concat (map Label line)"

definition blockLabel :: "StyledText option \<Rightarrow> string" where
  "blockLabel b = (case b of None \<Rightarrow> [] | Some block \<Rightarrow> Label block)"

definition allText :: "StyledText option list \<Rightarrow> string" where
  "allText styledText = concat (map blockLabel styledText)"

text \<open>The pieces of a text continuing a pending line \<open>c\<close>: the first piece extends it.\<close>

definition glue :: "string \<Rightarrow> string list \<Rightarrow> string list" where
  "glue c ps = (c @ hd ps) # tl ps"

text \<open>A run that carries a piece of the label of some block of the slice, with the
  attributes of that block.\<close>

definition fromBlock :: "StyledText option list \<Rightarrow> StyledText \<Rightarrow> bool" where
  "fromBlock styledText r \<longleftrightarrow>
     (\<exists>block. Some block \<in> set styledText \<and> Label r \<in> set (split_nl (Label block))
        \<and> FgCol r = FgCol block \<and> BgCol r = BgCol block \<and> Style r = Style block)"

section \<open>The specification's clamp\<close>

text \<open>\<open>clamp(t, lo, hi)\<close> as the specification words it, on \<open>float64\<close>: below the lower
  bound the lower bound, above the upper bound the upper bound, else the value. Every
  comparison with not-a-number is false, so not-a-number is left as it is.\<close>

definition clamp :: "float64 \<Rightarrow> float64 \<Rightarrow> float64 \<Rightarrow> float64" where
  "clamp t lo hi = (if f_less t lo then lo else if f_less hi t then hi else t)"

section \<open>A platform for examples\<close>

text \<open>A platform on which every conversion of a value that does not fit its result type
  gives 0. The examples below do not reach such a conversion.\<close>

definition zeroConv :: platform where
  "zeroConv = \<lparr>conv_int = (\<lambda>a. 0), conv_uint32 = (\<lambda>a. 0), conv_uint8 = (\<lambda>a. 0)\<rparr>"

section \<open>Images with the same bounds\<close>

definition sameBounds :: "image \<Rightarrow> image \<Rightarrow> bool" where
  "sameBounds a b \<longleftrightarrow> MinX a = MinX b \<and> MinY a = MinY b \<and> MaxX a = MaxX b \<and> MaxY a = MaxY b"

section \<open>Lemmas: splitting and rendering\<close>

declare decimal.simps [simp del]

lemma renderRuns_append:
  "renderRuns (pre @ post) y x =
     (fst (renderRuns pre y x) @ fst (renderRuns post y (snd (renderRuns pre y x))),
      snd (renderRuns post y (snd (renderRuns pre y x))))"
  by (induction pre arbitrary: x) (simp_all add: case_prod_unfold)

lemma renderRuns_cursor:
  "snd (renderRuns line y x) = x + charWidth * (\<Sum>r\<leftarrow>line. int (length (Label r)))"
  by (induction line arbitrary: x) (simp_all add: case_prod_unfold algebra_simps)

lemma decimal16: "decimal 16 = ''16''"
  by code_simp

lemma split_nl_ne: "split_nl s \<noteq> []"
  by (induction s) (auto split: list.splits)

lemma split_nl_append:
  "split_nl (s @ t) = butlast (split_nl s) @ (last (split_nl s) @ hd (split_nl t)) # tl (split_nl t)"
  using split_nl_ne[of t]
  apply (induction s) 
   apply (auto split: list.splits simp: split_nl_ne)
  done

lemma lineText_simps [simp]:
  "lineText [] = []" "lineText (xs @ ys) = lineText xs @ lineText ys"
  "lineText [newBlock b p] = p"
  by (simp_all add: lineText_def newBlock_def)

lemma split_parts_text:
  "parts \<noteq> [] \<Longrightarrow> split_parts b parts (lines, cur) = (lines', cur') \<Longrightarrow>
     map lineText lines' = map lineText lines @ butlast (glue (lineText cur) parts)
     \<and> lineText cur' = last (glue (lineText cur) parts)"
proof (induction parts arbitrary: lines cur)
  case Nil
  then show ?case by simp
next
  case (Cons p rest)
  show ?case
  proof (cases rest)
    case Nil
    with Cons.prems show ?thesis by (auto simp: glue_def)
  next
    case (Cons q rest')
    with Cons.prems Cons.IH[of "lines @ [if p \<noteq> [] then cur @ [newBlock b p] else cur]" "[]"]
    show ?thesis by (auto simp: glue_def Let_def)
  qed
qed

lemma glue_split_nl_append:
  "glue c (split_nl (s @ t)) =
     butlast (glue c (split_nl s)) @ glue (last (glue c (split_nl s))) (split_nl t)"
proof -
  obtain xs x where s: "split_nl s = xs @ [x]"
    using split_nl_ne[of s] by (cases "split_nl s" rule: rev_cases) auto
  obtain y ys where t: "split_nl t = y # ys"
    using split_nl_ne[of t] by (cases "split_nl t") auto
  have st: "split_nl (s @ t) = xs @ (x @ y) # ys"
    by (simp add: split_nl_append s t)
  show ?thesis
    unfolding st unfolding s t
    by (cases xs) (simp_all add: glue_def butlast_append)
qed

lemma glue_ne [simp]: "glue c ps \<noteq> []" by (simp add: glue_def)

lemma split_blocks_text:
  "split_blocks bs (lines, cur) = (lines', cur') \<Longrightarrow>
     map lineText lines' = map lineText lines @ butlast (glue (lineText cur) (split_nl (allText bs)))
     \<and> lineText cur' = last (glue (lineText cur) (split_nl (allText bs)))"
proof (induction bs arbitrary: lines cur)
  case Nil
  then show ?case by (simp add: allText_def glue_def)
next
  case (Cons b bs)
  show ?case
  proof (cases b)
    case None
    with Cons show ?thesis by (simp add: allText_def blockLabel_def)
  next
    case (Some block)
    obtain l1 c1 where st: "split_parts block (split_nl (Label block)) (lines, cur) = (l1, c1)"
      by (cases "split_parts block (split_nl (Label block)) (lines, cur)")
    from split_parts_text[OF split_nl_ne st]
    have 1: "map lineText l1 = map lineText lines @ butlast (glue (lineText cur) (split_nl (Label block)))"
      and 2: "lineText c1 = last (glue (lineText cur) (split_nl (Label block)))" by auto
    from Cons.prems Some st have "split_blocks bs (l1, c1) = (lines', cur')" by simp
    from Cons.IH[OF this]
    have 3: "map lineText lines' = map lineText l1 @ butlast (glue (lineText c1) (split_nl (allText bs)))"
      and 4: "lineText cur' = last (glue (lineText c1) (split_nl (allText bs)))" by auto
    have eq: "allText (b # bs) = Label block @ allText bs"
      using Some by (simp add: allText_def blockLabel_def)
    show ?thesis
      unfolding eq glue_split_nl_append[of "lineText cur" "Label block" "allText bs"]
      using 1 2 3 4 by (simp add: butlast_append)
  qed
qed

lemma split_nl_no_newline: "p \<in> set (split_nl s) \<Longrightarrow> CHR 0x0A \<notin> set p"
proof (induction s arbitrary: p)
  case Nil
  then show ?case by simp
next
  case (Cons c cs)
  obtain q qs where q: "split_nl cs = q # qs"
    using split_nl_ne[of cs] by (cases "split_nl cs") auto
  show ?case
  proof (cases "c = CHR 0x0A")
    case True
    with Cons show ?thesis by auto
  next
    case False
    have qin: "q \<in> set (split_nl cs)" and qsin: "set qs \<subseteq> set (split_nl cs)"
      unfolding q by auto
    from Cons.prems False have "p \<in> set ((c # q) # qs)" unfolding split_nl.simps q by simp
    then consider "p = c # q" | "p \<in> set qs" by auto
    then show ?thesis
    proof cases
      case 1
      with Cons.IH[OF qin] False show ?thesis by simp
    next
      case 2
      with qsin have "p \<in> set (split_nl cs)" by blast
      then show ?thesis by (rule Cons.IH)
    qed
  qed
qed

lemma split_parts_from:
  "split_parts b parts (lines, cur) = (lines', cur') \<Longrightarrow>
   (\<forall>l \<in> set (cur # lines). \<forall>r \<in> set l. Label r \<noteq> [] \<and> P r) \<Longrightarrow>
   (\<forall>p \<in> set parts. P (newBlock b p)) \<Longrightarrow>
   (\<forall>l \<in> set (cur' # lines'). \<forall>r \<in> set l. Label r \<noteq> [] \<and> P r)"
proof (induction parts arbitrary: lines cur)
  case Nil
  then show ?case by simp
next
  case (Cons p rest)
  let ?c = "if p \<noteq> [] then cur @ [newBlock b p] else cur"
  have c: "\<forall>r \<in> set ?c. Label r \<noteq> [] \<and> P r"
    using Cons.prems(2,3) by (auto simp: newBlock_def)
  have rest: "\<forall>p \<in> set rest. P (newBlock b p)" using Cons.prems(3) by simp
  show ?case
  proof (cases "rest = []")
    case True
    with Cons.prems(1) have "lines' = lines" "cur' = ?c" by (auto simp: Let_def)
    with c Cons.prems(2) show ?thesis by auto
  next
    case False
    have "\<forall>l \<in> set ([] # lines @ [?c]). \<forall>r \<in> set l. Label r \<noteq> [] \<and> P r"
      using Cons.prems(2) c by auto
    moreover have "split_parts b rest (lines @ [?c], []) = (lines', cur')"
      using Cons.prems(1) False by (simp add: Let_def)
    ultimately show ?thesis using Cons.IH rest by blast
  qed
qed

lemma fromBlock_mono: "fromBlock bs r \<Longrightarrow> fromBlock (b # bs) r"
  by (auto simp: fromBlock_def)

lemma split_blocks_from:
  "split_blocks bs (lines, cur) = (lines', cur') \<Longrightarrow>
   (\<forall>l \<in> set (cur # lines). \<forall>r \<in> set l. Label r \<noteq> [] \<and> P r) \<Longrightarrow>
   (\<forall>block p. Some block \<in> set bs \<longrightarrow> p \<in> set (split_nl (Label block)) \<longrightarrow> P (newBlock block p)) \<Longrightarrow>
   (\<forall>l \<in> set (cur' # lines'). \<forall>r \<in> set l. Label r \<noteq> [] \<and> P r)"
proof (induction bs arbitrary: lines cur)
  case Nil
  then show ?case by simp
next
  case (Cons b bs)
  show ?case
  proof (cases b)
    case None
    from Cons.prems(1) None have 1: "split_blocks bs (lines, cur) = (lines', cur')" by simp
    have 2: "\<forall>block p. Some block \<in> set bs \<longrightarrow> p \<in> set (split_nl (Label block)) \<longrightarrow> P (newBlock block p)"
      using Cons.prems(3) by (meson list.set_intros(2))
    show ?thesis by (rule Cons.IH[OF 1 Cons.prems(2) 2])
  next
    case (Some block)
    obtain l1 c1 where st: "split_parts block (split_nl (Label block)) (lines, cur) = (l1, c1)"
      by (cases "split_parts block (split_nl (Label block)) (lines, cur)")
    have "\<forall>p \<in> set (split_nl (Label block)). P (newBlock block p)"
      using Cons.prems(3) Some by (meson list.set_intros(1))
    from split_parts_from[OF st Cons.prems(2) this]
    have 1: "\<forall>l \<in> set (c1 # l1). \<forall>r \<in> set l. Label r \<noteq> [] \<and> P r" .
    from Cons.prems(1) Some st have 2: "split_blocks bs (l1, c1) = (lines', cur')" by simp
    have 3: "\<forall>block p. Some block \<in> set bs \<longrightarrow> p \<in> set (split_nl (Label block)) \<longrightarrow> P (newBlock block p)"
      using Cons.prems(3) by (meson list.set_intros(2))
    show ?thesis by (rule Cons.IH[OF 2 1 3])
  qed
qed

lemma split_runs:
  assumes "line \<in> set (splitStyledTextByLine styledText)" "r \<in> set line"
  shows "Label r \<noteq> [] \<and> CHR 0x0A \<notin> set (Label r) \<and> fromBlock styledText r"
proof -
  obtain lines cur where st: "split_blocks styledText ([], []) = (lines, cur)"
    by (cases "split_blocks styledText ([], [])")
  let ?P = "\<lambda>r. CHR 0x0A \<notin> set (Label r) \<and> fromBlock styledText r"
  have "\<forall>l \<in> set (cur # lines). \<forall>r \<in> set l. Label r \<noteq> [] \<and> ?P r"
  proof (rule split_blocks_from[OF st])
    show "\<forall>l\<in>set ([] # []). \<forall>r\<in>set l. Label r \<noteq> [] \<and> ?P r" by simp
    show "\<forall>block p. Some block \<in> set styledText \<longrightarrow> p \<in> set (split_nl (Label block)) \<longrightarrow> ?P (newBlock block p)"
      by (auto simp: newBlock_def fromBlock_def dest: split_nl_no_newline)
  qed
  moreover have "line \<in> set (cur # lines)"
    using assms(1) st by (auto simp: splitStyledTextByLine_def split: if_splits)
  ultimately show ?thesis using assms(2) by blast
qed

lemma split_texts:
  "map lineText (splitStyledTextByLine styledText) =
     (let pieces = split_nl (allText styledText)
      in if last pieces = [] then butlast pieces else pieces)"
proof -
  obtain lines cur where st: "split_blocks styledText ([], []) = (lines, cur)"
    by (cases "split_blocks styledText ([], [])")
  from split_blocks_text[OF st]
  have 1: "map lineText lines = butlast (split_nl (allText styledText))"
    and 2: "lineText cur = last (split_nl (allText styledText))"
    using split_nl_ne[of "allText styledText"] by (simp_all add: glue_def)
  have "\<forall>l \<in> set (cur # lines). \<forall>r \<in> set l. Label r \<noteq> [] \<and> True"
    by (rule split_blocks_from[OF st]) simp_all
  then have 3: "lineText cur = [] \<longleftrightarrow> cur = []"
    by (cases cur) (auto simp: lineText_def)
  show ?thesis
    using 1 2 3 split_nl_ne[of "allText styledText"]
    by (simp add: splitStyledTextByLine_def st Let_def)
qed

lemma renderLines_append:
  "renderLines (ls1 @ ls2) y = renderLines ls1 y @ renderLines ls2 (y + lineHeight * int (length ls1))"
  by (induction ls1 arbitrary: y) (simp_all add: algebra_simps)

lemma currentLineLength_sum:
  "currentLineLength line n = n + (\<Sum>r\<leftarrow>line. int (length (Label r)))"
  by (induction line arbitrary: n) simp_all

lemma Max_insert_insert:
  "finite A \<Longrightarrow> Max (insert (a::int) (insert b A)) = Max (insert (max a b) A)"
  by (cases "A = {}") (simp_all add: max.assoc)

lemma maxLineLength_Max:
  "maxLineLength lines m = Max (insert m ((\<lambda>line. \<Sum>r\<leftarrow>line. int (length (Label r))) ` set lines))"
proof (induction lines arbitrary: m)
  case Nil
  then show ?case by simp
next
  case (Cons l ls)
  let ?f = "\<lambda>line. \<Sum>r\<leftarrow>line. int (length (Label r))"
  have "maxLineLength (l # ls) m = maxLineLength ls (max m (?f l))"
    by (simp add: currentLineLength_sum Let_def max_def)
  also have "\<dots> = Max (insert (max m (?f l)) (?f ` set ls))"
    by (rule Cons.IH)
  also have "\<dots> = Max (insert m (insert (?f l) (?f ` set ls)))"
    by (rule Max_insert_insert [symmetric]) simp
  finally show ?case by simp
qed

section \<open>Run rendering\<close>

lemma textStyle_eq:
  "textStyle c = ''fill:'' @ c @ ''; font-family:monospace; font-size:16px; dominant-baseline:text-before-edge''"
  by (simp add: textStyle_def fontSize_def decimal16)

text \<open>
  C3 (as amended). In a line \<open>pre @ run # post\<close> rendered from \<open>startX\<close>, the cursor
  reaches \<open>run\<close> at \<open>startX\<close> plus one cell width for every character before it. A
  run with an empty label emits nothing and leaves the cursor; a run whose label is
  exactly one space emits nothing and moves the cursor by one cell width; every other
  run, also one of two or more spaces, emits exactly one text primitive at the cursor,
  with its label and its foreground colour (\<open>#FFFFFF\<close> when the colour is nil or its hex
  string is empty), and moves the cursor by its length times the cell width.
\<close>

theorem run_rendering:
  "(let x1 = startX + charWidth * (\<Sum>r\<leftarrow>pre. int (length (Label r)));
        emitted =
          (if Label run = [] \<or> Label run = '' '' then []
           else [Text x1 yPos (Label run)
                   (''fill:''
                    @ (case FgCol run of
                         None \<Rightarrow> ''#FFFFFF''
                       | Some c \<Rightarrow> if Hex c = [] then ''#FFFFFF'' else Hex c)
                    @ ''; font-family:monospace; font-size:16px; dominant-baseline:text-before-edge'')]);
        x2 = (if Label run = [] then x1
              else if Label run = '' '' then x1 + charWidth
              else x1 + int (length (Label run)) * charWidth)
    in snd (renderRuns pre yPos startX) = x1
       \<and> renderRuns (pre @ run # post) yPos startX =
           (fst (renderRuns pre yPos startX) @ emitted @ fst (renderRuns post yPos x2),
            snd (renderRuns post yPos x2))
       \<and> renderLine (pre @ run # post) yPos startX =
           renderLine pre yPos startX @ emitted @ renderLine post yPos x2)"
proof -
  have c: "snd (renderRuns pre yPos startX)
             = startX + charWidth * (\<Sum>r\<leftarrow>pre. int (length (Label r)))"
    by (rule renderRuns_cursor)
  have col: "textColorOf run =
      (case FgCol run of None \<Rightarrow> ''#FFFFFF'' | Some c \<Rightarrow> if Hex c = [] then ''#FFFFFF'' else Hex c)"
    by (simp add: textColorOf_def split: option.splits)
  show ?thesis
    unfolding Let_def renderLine_def renderRuns_append[of pre "run # post"] c
    by (simp add: case_prod_unfold textStyle_eq col)
qed

text \<open>The theorem at a line of three runs: a coloured word, a space, an uncoloured
  letter.\<close>

theorem run_rendering_witness:
  "renderRuns
     [\<lparr>Label = ''ab'', FgCol = Some \<lparr>Hex = ''#ff0000''\<rparr>, BgCol = None, Style = 0\<rparr>,
      \<lparr>Label = '' '', FgCol = None, BgCol = None, Style = 0\<rparr>,
      \<lparr>Label = ''c'', FgCol = None, BgCol = None, Style = 0\<rparr>] 14 1 =
     ([Text 1 14 ''ab''
         ''fill:#ff0000; font-family:monospace; font-size:16px; dominant-baseline:text-before-edge'',
       Text 49 14 ''c''
         ''fill:#FFFFFF; font-family:monospace; font-size:16px; dominant-baseline:text-before-edge''],
      65)"
  using run_rendering
    [of 1 "[\<lparr>Label = ''ab'', FgCol = Some \<lparr>Hex = ''#ff0000''\<rparr>, BgCol = None, Style = 0\<rparr>]"
        "\<lparr>Label = '' '', FgCol = None, BgCol = None, Style = 0\<rparr>" 14
        "[\<lparr>Label = ''c'', FgCol = None, BgCol = None, Style = 0\<rparr>]"]
  by (simp add: charWidth_def textStyle_eq textColorOf_def)

text \<open>C3 as stated fails: a run of two spaces is not skipped, it is drawn as a text
  primitive.\<close>

theorem space_only_run_counterexample:
  "renderLine [\<lparr>Label = ''  '', FgCol = None, BgCol = None, Style = 0\<rparr>] 0 1 =
     [Text 1 0 ''  ''
        ''fill:#FFFFFF; font-family:monospace; font-size:16px; dominant-baseline:text-before-edge'']"
  by (simp add: renderLine_def textStyle_eq textColorOf_def)

section \<open>Line splitting, canvas geometry, background\<close>

lemma writeOps_concat: "writeOps emit buffer ops = buffer @ concat (map emit ops)"
  unfolding writeOps_def by (induction ops arbitrary: buffer) simp_all

lemma renderRuns_texts: "\<forall>op \<in> set (fst (renderRuns line y x)). \<exists>x' t s. op = Text x' y t s"
  by (induction line arbitrary: x) (simp_all add: case_prod_unfold)

lemma renderLines_texts: "\<forall>op \<in> set (renderLines lines y). \<exists>x' y' t s. op = Text x' y' t s"
proof (induction lines arbitrary: y)
  case Nil
  then show ?case by simp
next
  case (Cons l ls)
  have "\<forall>op \<in> set (renderLine l y paddingLeft). \<exists>x' y' t s. op = Text x' y' t s"
    using renderRuns_texts[of l y paddingLeft] unfolding renderLine_def by blast
  with Cons.IH[of "y + lineHeight"] show ?case by (auto simp del: ex_simps)
qed

lemma calculateSVGDimensions_pos:
  "0 < fst (calculateSVGDimensions lines) \<and> 0 < snd (calculateSVGDimensions lines)"
  by (simp add: calculateSVGDimensions_def Let_def layout_defs)

text \<open>
  C4. The texts of the lines are the pieces into which the newlines split the
  concatenated labels of the blocks, the last piece kept only when it is not empty: so a
  label is split at every newline, the line is closed there, and a pending line without
  a final newline is kept. Every run of every line carries a non-empty piece, free of
  newlines, of the label of some block, with that block's attributes (zero-length
  fragments are dropped). Two consecutive newlines give an empty line (see the witness),
  and a line, empty or not, takes one stride of the line height: the lines after it are
  drawn one \<open>lineHeight\<close> lower for each line before them, and the canvas is
  \<open>lineHeight\<close> high for each line.
\<close>

theorem line_splitting:
  "map lineText (splitStyledTextByLine styledText) =
     (let pieces = split_nl (allText styledText)
      in if last pieces = [] then butlast pieces else pieces)
   \<and> (\<forall>line \<in> set (splitStyledTextByLine styledText). \<forall>r \<in> set line.
         Label r \<noteq> [] \<and> CHR 0x0A \<notin> set (Label r) \<and> fromBlock styledText r)
   \<and> renderLines (earlier @ line # later) yPos =
         renderLines earlier yPos
         @ renderLine line (yPos + lineHeight * int (length earlier)) paddingLeft
         @ renderLines later (yPos + lineHeight * (int (length earlier) + 1))
   \<and> snd (calculateSVGDimensions (earlier @ line # later)) =
         lineHeight * (int (length earlier) + 1 + int (length later))"
proof -
  have 1: "map lineText (splitStyledTextByLine styledText) =
     (let pieces = split_nl (allText styledText)
      in if last pieces = [] then butlast pieces else pieces)"
    by (rule split_texts)
  have 2: "\<forall>line \<in> set (splitStyledTextByLine styledText). \<forall>r \<in> set line.
         Label r \<noteq> [] \<and> CHR 0x0A \<notin> set (Label r) \<and> fromBlock styledText r"
    using split_runs by blast
  have 3: "renderLines (earlier @ line # later) yPos =
         renderLines earlier yPos
         @ renderLine line (yPos + lineHeight * int (length earlier)) paddingLeft
         @ renderLines later (yPos + lineHeight * (int (length earlier) + 1))"
    by (simp add: renderLines_append algebra_simps)
  have 4: "snd (calculateSVGDimensions (earlier @ line # later)) =
         lineHeight * (int (length earlier) + 1 + int (length later))"
    by (simp add: calculateSVGDimensions_def Let_def layout_defs)
  from 1 2 3 4 show ?thesis by blast
qed

text \<open>The theorem at one block labelled \<open>a\<close>, newline, newline, \<open>b\<close>: three lines, the
  middle one empty; \<open>b\<close> is drawn two strides below \<open>a\<close>.\<close>

theorem line_splitting_witness:
  "map lineText
     (splitStyledTextByLine
        [Some \<lparr>Label = [CHR ''a'', CHR 0x0A, CHR 0x0A, CHR ''b''],
               FgCol = None, BgCol = None, Style = 0\<rparr>]) = [''a'', [], ''b'']
   \<and> renderLines
        [[\<lparr>Label = ''a'', FgCol = None, BgCol = None, Style = 0\<rparr>], [],
         [\<lparr>Label = ''b'', FgCol = None, BgCol = None, Style = 0\<rparr>]] paddingTop =
       renderLine [\<lparr>Label = ''a'', FgCol = None, BgCol = None, Style = 0\<rparr>] (- 2) 1
       @ renderLine [\<lparr>Label = ''b'', FgCol = None, BgCol = None, Style = 0\<rparr>] 30 1
   \<and> snd (calculateSVGDimensions
        [[\<lparr>Label = ''a'', FgCol = None, BgCol = None, Style = 0\<rparr>], [],
         [\<lparr>Label = ''b'', FgCol = None, BgCol = None, Style = 0\<rparr>]]) = 48"
  using line_splitting
    [of "[Some \<lparr>Label = [CHR ''a'', CHR 0x0A, CHR 0x0A, CHR ''b''],
                  FgCol = None, BgCol = None, Style = 0\<rparr>]"
        "[[\<lparr>Label = ''a'', FgCol = None, BgCol = None, Style = 0\<rparr>], []]"
        "[\<lparr>Label = ''b'', FgCol = None, BgCol = None, Style = 0\<rparr>]" "[]" paddingTop]
  by (simp add: allText_def blockLabel_def layout_defs renderLine_def)

text \<open>
  C5. The canvas is as wide as the longest line (the sum of the lengths of its labels)
  times the cell width plus the left and right padding, and as high as the number of
  lines times the line height plus the top and bottom padding; a width or height that is
  zero or negative is replaced by the one of a single cell. Both are positive. The canvas
  is opened with these dimensions. A nil slice fails with \<open>NilInput\<close> and leaves the
  pool alone; an empty slice succeeds with the canvas of a single cell.
\<close>

theorem canvas_geometry:
  "calculateSVGDimensions lines =
     (let maxLen = Max (insert 0 ((\<lambda>line. \<Sum>r\<leftarrow>line. int (length (Label r))) ` set lines));
          w = maxLen * charWidth + paddingLeft + paddingRight;
          h = int (length lines) * lineHeight + paddingTop + paddingBottom
      in (if w \<le> 0 then charWidth + paddingLeft + paddingRight else w,
          if h \<le> 0 then lineHeight + paddingTop + paddingBottom else h))
   \<and> 0 < fst (calculateSVGDimensions lines) \<and> 0 < snd (calculateSVGDimensions lines)
   \<and> hd (canvasOps styledText backgroundColor) =
       Start (fst (calculateSVGDimensions (splitStyledTextByLine styledText)))
             (snd (calculateSVGDimensions (splitStyledTextByLine styledText)))
   \<and> renderToSVG emit pooled None backgroundColor = (Inl NilInput, pooled)
   \<and> fst (renderToSVG emit pooled (Some []) backgroundColor) =
       Inr (emit (Start (charWidth + paddingLeft + paddingRight)
                        (lineHeight + paddingTop + paddingBottom))
            @ emit (Rect 0 0 (charWidth + paddingLeft + paddingRight)
                          (lineHeight + paddingTop + paddingBottom)
                          (''fill:'' @ backgroundColor))
            @ emit End)"
proof -
  have 1: "calculateSVGDimensions lines =
     (let maxLen = Max (insert 0 ((\<lambda>line. \<Sum>r\<leftarrow>line. int (length (Label r))) ` set lines));
          w = maxLen * charWidth + paddingLeft + paddingRight;
          h = int (length lines) * lineHeight + paddingTop + paddingBottom
      in (if w \<le> 0 then charWidth + paddingLeft + paddingRight else w,
          if h \<le> 0 then lineHeight + paddingTop + paddingBottom else h))"
    unfolding calculateSVGDimensions_def maxLineLength_Max by (simp add: Let_def)
  have 3: "hd (canvasOps styledText backgroundColor) =
       Start (fst (calculateSVGDimensions (splitStyledTextByLine styledText)))
             (snd (calculateSVGDimensions (splitStyledTextByLine styledText)))"
    by (simp add: canvasOps_def Let_def case_prod_unfold)
  have 4: "renderToSVG emit pooled None backgroundColor = (Inl NilInput, pooled)"
    by (simp add: renderToSVG_def)
  have e: "splitStyledTextByLine [] = []" by (simp add: splitStyledTextByLine_def)
  have 5: "fst (renderToSVG emit pooled (Some []) backgroundColor) =
       Inr (emit (Start (charWidth + paddingLeft + paddingRight)
                        (lineHeight + paddingTop + paddingBottom))
            @ emit (Rect 0 0 (charWidth + paddingLeft + paddingRight)
                          (lineHeight + paddingTop + paddingBottom)
                          (''fill:'' @ backgroundColor))
            @ emit End)"
    by (simp add: renderToSVG_def Let_def writeOps_concat canvasOps_def e
          calculateSVGDimensions_def layout_defs)
  from 1 calculateSVGDimensions_pos[of lines] 3 4 5 show ?thesis by blast
qed

text \<open>The theorem at two lines, of three characters and of one, and at no line.\<close>

theorem canvas_geometry_witness:
  "calculateSVGDimensions
     [[\<lparr>Label = ''ab'', FgCol = None, BgCol = None, Style = 0\<rparr>,
       \<lparr>Label = ''c'', FgCol = None, BgCol = None, Style = 0\<rparr>],
      [\<lparr>Label = ''d'', FgCol = None, BgCol = None, Style = 0\<rparr>]] = (43, 32)
   \<and> calculateSVGDimensions [] = (11, 16)"
  using canvas_geometry
    [of "[[\<lparr>Label = ''ab'', FgCol = None, BgCol = None, Style = 0\<rparr>,
           \<lparr>Label = ''c'', FgCol = None, BgCol = None, Style = 0\<rparr>],
          [\<lparr>Label = ''d'', FgCol = None, BgCol = None, Style = 0\<rparr>]]"]
    canvas_geometry [of "[]"]
  by (simp add: layout_defs)

text \<open>
  C10. For every non-nil slice of blocks and every background string, the canvas calls
  are the opening, one rectangle over the whole canvas whose style is \<open>fill:\<close> followed
  by the string as it is, text primitives only, and the closing; the returned document
  is their serialisation. The string is neither parsed nor replaced. An empty option
  string has become \<open>#000000\<close> before, any other is passed on unchanged.
\<close>

theorem background_fill_verbatim:
  "\<exists>w h texts.
     (w, h) = calculateSVGDimensions (splitStyledTextByLine styledText)
     \<and> canvasOps styledText backgroundColor =
         Start w h # Rect 0 0 w h (''fill:'' @ backgroundColor) # texts @ [End]
     \<and> (\<forall>op \<in> set texts. \<exists>x y t s. op = Text x y t s)
     \<and> renderToSVG emit pooled (Some styledText) backgroundColor =
         (Inr (emit (Start w h) @ emit (Rect 0 0 w h (''fill:'' @ backgroundColor))
               @ concat (map emit texts) @ emit End),
          emit (Start w h) @ emit (Rect 0 0 w h (''fill:'' @ backgroundColor))
               @ concat (map emit texts) @ emit End)
     \<and> BackgroundColor (setDefaults opts) =
         (if BackgroundColor opts = [] then ''#000000'' else BackgroundColor opts)"
proof -
  have bg: "BackgroundColor (setDefaults opts) =
         (if BackgroundColor opts = [] then ''#000000'' else BackgroundColor opts)"
    by (simp add: setDefaults_def Let_def)
  obtain w h where wh: "calculateSVGDimensions (splitStyledTextByLine styledText) = (w, h)"
    by (cases "calculateSVGDimensions (splitStyledTextByLine styledText)")
  let ?texts = "renderLines (splitStyledTextByLine styledText) paddingTop"
  have ops: "canvasOps styledText backgroundColor =
         Start w h # Rect 0 0 w h (''fill:'' @ backgroundColor) # ?texts @ [End]"
    by (simp add: canvasOps_def Let_def wh)
  have "renderToSVG emit pooled (Some styledText) backgroundColor =
         (Inr (emit (Start w h) @ emit (Rect 0 0 w h (''fill:'' @ backgroundColor))
               @ concat (map emit ?texts) @ emit End),
          emit (Start w h) @ emit (Rect 0 0 w h (''fill:'' @ backgroundColor))
               @ concat (map emit ?texts) @ emit End)"
    by (simp add: renderToSVG_def Let_def writeOps_concat ops)
  with ops wh renderLines_texts[of "splitStyledTextByLine styledText" paddingTop] bg
  show ?thesis by metis
qed

text \<open>The theorem at a background string that is no colour at all.\<close>

theorem background_fill_verbatim_witness:
  "canvasOps [Some \<lparr>Label = ''a'', FgCol = None, BgCol = None, Style = 0\<rparr>] ''not a colour'' ! 1
     = Rect 0 0 11 16 ''fill:not a colour''"
proof -
  let ?st = "[Some \<lparr>Label = ''a'', FgCol = None, BgCol = None, Style = 0\<rparr>]"
  from background_fill_verbatim [of ?st "''not a colour''" "\<lambda>op. []" "[]"]
  obtain w h texts where
    a: "(w, h) = calculateSVGDimensions (splitStyledTextByLine ?st)" and
    b: "canvasOps ?st ''not a colour'' =
          Start w h # Rect 0 0 w h (''fill:'' @ ''not a colour'') # texts @ [End]"
    by blast
  have "calculateSVGDimensions (splitStyledTextByLine ?st) = (11, 16)"
    by (simp add: splitStyledTextByLine_def calculateSVGDimensions_def layout_defs newBlock_def)
  with a have "w = 11" "h = 16" by simp_all
  with b show ?thesis by simp
qed

section \<open>Failure modes, validation, options, determinism\<close>

text \<open>
  C6 (as amended). \<open>parseANSI\<close> fails with \<open>EmptyInput\<close> exactly when the stream is
  empty; with \<open>ParseError\<close> exactly when the stream is not empty and the parser reports
  an error; with the nil-result error exactly when the stream is not empty and the parser
  returns a nil slice without an error; with \<open>TooManyElements\<close> exactly when the parser
  returns more than 100,000 blocks. It succeeds, with the parser's slice as it is,
  exactly when the stream is not empty and the parser returns a non-nil slice of at most
  100,000 blocks, whether or not the warning past 30,000 is sent.
\<close>

theorem parseANSI_failure_modes:
  "(fst (parseANSI Parse s) = Inl EmptyInput_Ascii \<longleftrightarrow> s = [])
   \<and> ((\<exists>e. fst (parseANSI Parse s) = Inl (ParseError e)) \<longleftrightarrow> s \<noteq> [] \<and> (\<exists>e. Parse s = Inl e))
   \<and> (fst (parseANSI Parse s) = Inl StyledNil \<longleftrightarrow> s \<noteq> [] \<and> Parse s = Inr None)
   \<and> ((\<exists>n m. fst (parseANSI Parse s) = Inl (TooManyElements n m)) \<longleftrightarrow>
        s \<noteq> [] \<and> (\<exists>st. Parse s = Inr (Some st) \<and> 100000 < length st))
   \<and> (fst (parseANSI Parse s) = Inr styledText \<longleftrightarrow>
        s \<noteq> [] \<and> Parse s = Inr (Some styledText) \<and> length styledText \<le> 100000)
   \<and> (snd (parseANSI Parse s) \<noteq> [] \<longleftrightarrow>
        s \<noteq> [] \<and> (\<exists>st. Parse s = Inr (Some st) \<and> 30000 < length st \<and> length st \<le> 100000))"
  by (cases "Parse s"; cases "projr (Parse s)")
     (auto simp: parseANSI_def Let_def maxStyledElements_def split: sum.splits option.splits)

text \<open>The theorem at a parser returning 40,000 blocks (success, with the warning) and
  at one returning 100,001.\<close>

theorem parseANSI_failure_modes_witness:
  "fst (parseANSI (\<lambda>s. Inr (Some (replicate 40000 None))) ''x'') = Inr (replicate 40000 None)
   \<and> snd (parseANSI (\<lambda>s. Inr (Some (replicate 40000 None))) ''x'') \<noteq> []
   \<and> (\<exists>n m. fst (parseANSI (\<lambda>s. Inr (Some (replicate 100001 None))) ''x'')
         = Inl (TooManyElements n m))"
  using parseANSI_failure_modes [of "\<lambda>s. Inr (Some (replicate 40000 None))" "''x''" "replicate 40000 None"]
        parseANSI_failure_modes [of "\<lambda>s. Inr (Some (replicate 100001 None))" "''x''"]
  by simp

text \<open>C6 as stated fails: a parser result of no error and a nil slice has a run count of
  zero, below the cap, and \<open>parseANSI\<close> fails on it, with an error that is none of the
  three the claim lists.\<close>

theorem parseANSI_nil_counterexample:
  "fst (parseANSI (\<lambda>s. Inr None) ''x'') = Inl StyledNil"
  by (simp add: parseANSI_def)


text \<open>
  C7. The checks are made in the order empty, too large, width: empty bytes fail
  with \<open>EmptyInput\<close>, bytes over the ceiling of 50 MiB with \<open>InputTooLarge\<close>, and, the
  size checks passed, a non-positive width with \<open>InvalidOption\<close>. Whenever one of the
  three conditions holds the pipeline returns the error of \<open>validateInput\<close>, whatever
  the libraries and the platform are (the decoder and every later stage have no part in
  the result), sends nothing to the console and leaves the buffer of the pool as it was.
\<close>

theorem entry_validation_fail_fast:
  "(length imageData = 0 \<longrightarrow>
      ProcessImageToSVG lib pf pooled imageData opts = (Inl EmptyInput_Image, pooled, []))
   \<and> (MaxImageSize < int (length imageData) \<longrightarrow>
      ProcessImageToSVG lib pf pooled imageData opts =
        (Inl (InputTooLarge (int (length imageData)) (50 * 1024 * 1024)), pooled, []))
   \<and> (0 < length imageData \<and> int (length imageData) \<le> MaxImageSize \<and> TargetWidth opts \<le> 0 \<longrightarrow>
      ProcessImageToSVG lib pf pooled imageData opts = (Inl InvalidOption, pooled, []))
   \<and> (length imageData = 0 \<or> MaxImageSize < int (length imageData) \<or> TargetWidth opts \<le> 0 \<longrightarrow>
      (\<exists>err. validateInput imageData opts = Some err
         \<and> ProcessImageToSVG lib pf pooled imageData opts = (Inl err, pooled, [])
         \<and> ProcessImageToSVG lib' pf' pooled imageData opts = (Inl err, pooled, [])))"
  by (auto simp: ProcessImageToSVG_def validateInput_def MaxImageSize_def)

text \<open>The theorem at no bytes, at 60 MiB of bytes and at a width of \<open>-5\<close>.\<close>

theorem entry_validation_fail_fast_witness:
  "\<forall>lib pf.
     ProcessImageToSVG lib pf ''old'' []
       \<lparr>TargetWidth = 0, Brightness = Fin 0, Contrast = Fin 0, Sharpen = Fin 0,
        BackgroundColor = [], TransparencyColor = [], TransparencyThreshold = Fin 0\<rparr>
       = (Inl EmptyInput_Image, ''old'', [])
     \<and> ProcessImageToSVG lib pf ''old'' (replicate (60 * 1024 * 1024) 0)
       \<lparr>TargetWidth = 100, Brightness = Fin 0, Contrast = Fin 0, Sharpen = Fin 0,
        BackgroundColor = [], TransparencyColor = [], TransparencyThreshold = Fin 0\<rparr>
       = (Inl (InputTooLarge (60 * 1024 * 1024) (50 * 1024 * 1024)), ''old'', [])
     \<and> ProcessImageToSVG lib pf ''old'' [1, 2, 3]
       \<lparr>TargetWidth = - 5, Brightness = Fin 0, Contrast = Fin 0, Sharpen = Fin 0,
        BackgroundColor = [], TransparencyColor = [], TransparencyThreshold = Fin 0\<rparr>
       = (Inl InvalidOption, ''old'', [])"
proof (intro allI)
  fix lib pf
  show "ProcessImageToSVG lib pf ''old'' []
       \<lparr>TargetWidth = 0, Brightness = Fin 0, Contrast = Fin 0, Sharpen = Fin 0,
        BackgroundColor = [], TransparencyColor = [], TransparencyThreshold = Fin 0\<rparr>
       = (Inl EmptyInput_Image, ''old'', [])
     \<and> ProcessImageToSVG lib pf ''old'' (replicate (60 * 1024 * 1024) 0)
       \<lparr>TargetWidth = 100, Brightness = Fin 0, Contrast = Fin 0, Sharpen = Fin 0,
        BackgroundColor = [], TransparencyColor = [], TransparencyThreshold = Fin 0\<rparr>
       = (Inl (InputTooLarge (60 * 1024 * 1024) (50 * 1024 * 1024)), ''old'', [])
     \<and> ProcessImageToSVG lib pf ''old'' [1, 2, 3]
       \<lparr>TargetWidth = - 5, Brightness = Fin 0, Contrast = Fin 0, Sharpen = Fin 0,
        BackgroundColor = [], TransparencyColor = [], TransparencyThreshold = Fin 0\<rparr>
       = (Inl InvalidOption, ''old'', [])"
    using entry_validation_fail_fast
        [of "[]" lib pf "''old''"
            "\<lparr>TargetWidth = 0, Brightness = Fin 0, Contrast = Fin 0, Sharpen = Fin 0,
              BackgroundColor = [], TransparencyColor = [], TransparencyThreshold = Fin 0\<rparr>"]
      entry_validation_fail_fast
        [of "replicate (60 * 1024 * 1024) 0" lib pf "''old''"
            "\<lparr>TargetWidth = 100, Brightness = Fin 0, Contrast = Fin 0, Sharpen = Fin 0,
              BackgroundColor = [], TransparencyColor = [], TransparencyThreshold = Fin 0\<rparr>"]
      entry_validation_fail_fast
        [of "[1, 2, 3]" lib pf "''old''"
            "\<lparr>TargetWidth = - 5, Brightness = Fin 0, Contrast = Fin 0, Sharpen = Fin 0,
              BackgroundColor = [], TransparencyColor = [], TransparencyThreshold = Fin 0\<rparr>"]
    by (simp add: MaxImageSize_def)
qed

text \<open>
  C8. \<open>setDefaults\<close> never fails. The threshold becomes \<open>clamp(t, 0, 1)\<close>: a value
  in \<open>[0, 1]\<close> for every threshold that is a number or an infinity (not-a-number
  stays not-a-number, as under any clamp made of comparisons). An empty background
  becomes \<open>#000000\<close>, an empty transparency colour \<open>#FFFFFF\<close>; non-empty strings and
  the other options are unchanged.
\<close>

theorem options_normalization:
  "TransparencyThreshold (setDefaults opts) = clamp (TransparencyThreshold opts) (Fin 0) (Fin 1)
   \<and> ((\<exists>q. TransparencyThreshold (setDefaults opts) = Fin q \<and> 0 \<le> q \<and> q \<le> 1)
        \<or> (TransparencyThreshold opts = NaN \<and> TransparencyThreshold (setDefaults opts) = NaN))
   \<and> BackgroundColor (setDefaults opts) =
       (if BackgroundColor opts = [] then ''#000000'' else BackgroundColor opts)
   \<and> TransparencyColor (setDefaults opts) =
       (if TransparencyColor opts = [] then ''#FFFFFF'' else TransparencyColor opts)
   \<and> TargetWidth (setDefaults opts) = TargetWidth opts
   \<and> Brightness (setDefaults opts) = Brightness opts
   \<and> Contrast (setDefaults opts) = Contrast opts
   \<and> Sharpen (setDefaults opts) = Sharpen opts"
  by (cases "TransparencyThreshold opts")
     (auto simp: setDefaults_def Let_def clamp_def min_def max_def)

text \<open>The theorem at the thresholds \<open>-1\<close>, \<open>1.5\<close> and \<open>0.5\<close>, with empty and
  non-empty colour strings.\<close>

theorem options_normalization_witness:
  "TransparencyThreshold (setDefaults
     \<lparr>TargetWidth = 100, Brightness = Fin 0, Contrast = Fin 0, Sharpen = Fin 0,
      BackgroundColor = [], TransparencyColor = [], TransparencyThreshold = Fin (- 1)\<rparr>) = Fin 0
   \<and> TransparencyThreshold (setDefaults
     \<lparr>TargetWidth = 100, Brightness = Fin 0, Contrast = Fin 0, Sharpen = Fin 0,
      BackgroundColor = [], TransparencyColor = [], TransparencyThreshold = Fin (3 / 2)\<rparr>) = Fin 1
   \<and> TransparencyThreshold (setDefaults
     \<lparr>TargetWidth = 100, Brightness = Fin 0, Contrast = Fin 0, Sharpen = Fin 0,
      BackgroundColor = ''red'', TransparencyColor = ''#abc'', TransparencyThreshold = Fin (1 / 2)\<rparr>)
       = Fin (1 / 2)
   \<and> BackgroundColor (setDefaults
     \<lparr>TargetWidth = 100, Brightness = Fin 0, Contrast = Fin 0, Sharpen = Fin 0,
      BackgroundColor = [], TransparencyColor = [], TransparencyThreshold = Fin (- 1)\<rparr>) = ''#000000''
   \<and> TransparencyColor (setDefaults
     \<lparr>TargetWidth = 100, Brightness = Fin 0, Contrast = Fin 0, Sharpen = Fin 0,
      BackgroundColor = [], TransparencyColor = [], TransparencyThreshold = Fin (- 1)\<rparr>) = ''#FFFFFF''
   \<and> BackgroundColor (setDefaults
     \<lparr>TargetWidth = 100, Brightness = Fin 0, Contrast = Fin 0, Sharpen = Fin 0,
      BackgroundColor = ''red'', TransparencyColor = ''#abc'', TransparencyThreshold = Fin (1 / 2)\<rparr>)
       = ''red''"
  using options_normalization
    [of "\<lparr>TargetWidth = 100, Brightness = Fin 0, Contrast = Fin 0, Sharpen = Fin 0,
      BackgroundColor = [], TransparencyColor = [], TransparencyThreshold = Fin (- 1)\<rparr>"]
    options_normalization
    [of "\<lparr>TargetWidth = 100, Brightness = Fin 0, Contrast = Fin 0, Sharpen = Fin 0,
      BackgroundColor = [], TransparencyColor = [], TransparencyThreshold = Fin (3 / 2)\<rparr>"]
    options_normalization
    [of "\<lparr>TargetWidth = 100, Brightness = Fin 0, Contrast = Fin 0, Sharpen = Fin 0,
      BackgroundColor = ''red'', TransparencyColor = ''#abc'', TransparencyThreshold = Fin (1 / 2)\<rparr>"]
  by (simp add: clamp_def)

lemma renderToSVG_pool:
  "fst (renderToSVG emit pooled st bg) = fst (renderToSVG emit pooled' st bg)"
  by (simp add: renderToSVG_def Let_def split: option.splits)

text \<open>
  C9. The libraries being functions of their arguments, the only state a call of
  the pipeline can see from an earlier one is the buffer of the pool. The returned value
  (document or error) and the console output do not depend on it; so a second call on
  the same bytes and options, starting from the pool the first call left, returns the
  same value.
\<close>

theorem pipeline_deterministic:
  "fst (ProcessImageToSVG lib pf pooled imageData opts)
     = fst (ProcessImageToSVG lib pf pooled' imageData opts)
   \<and> snd (snd (ProcessImageToSVG lib pf pooled imageData opts))
     = snd (snd (ProcessImageToSVG lib pf pooled' imageData opts))
   \<and> (case ProcessImageToSVG lib pf pooled imageData opts of
         (first, pooled1, console1) \<Rightarrow>
           (case ProcessImageToSVG lib pf pooled1 imageData opts of
              (second, pooled2, console2) \<Rightarrow> second = first \<and> console2 = console1))"
proof -
  have a: "\<And>p p'. fst (ProcessImageToSVG lib pf p imageData opts)
     = fst (ProcessImageToSVG lib pf p' imageData opts)
   \<and> snd (snd (ProcessImageToSVG lib pf p imageData opts))
     = snd (snd (ProcessImageToSVG lib pf p' imageData opts))"
    unfolding ProcessImageToSVG_def
    by (simp add: Let_def renderToSVG_def split: option.splits sum.splits prod.splits)
  show ?thesis
    using a[of pooled pooled']
      a[of "fst (snd (ProcessImageToSVG lib pf pooled imageData opts))" pooled]
    by (simp add: case_prod_unfold)
qed


text \<open>The theorem at a pool holding a used buffer and at a fresh one.\<close>

theorem pipeline_deterministic_witness:
  "\<forall>lib pf.
     fst (ProcessImageToSVG lib pf ''left by an earlier call'' [1, 2, 3]
            \<lparr>TargetWidth = 100, Brightness = Fin 0, Contrast = Fin 0, Sharpen = Fin 0,
             BackgroundColor = [], TransparencyColor = [], TransparencyThreshold = Fin 0\<rparr>)
     = fst (ProcessImageToSVG lib pf [] [1, 2, 3]
            \<lparr>TargetWidth = 100, Brightness = Fin 0, Contrast = Fin 0, Sharpen = Fin 0,
             BackgroundColor = [], TransparencyColor = [], TransparencyThreshold = Fin 0\<rparr>)"
  using pipeline_deterministic by blast

section \<open>Lemmas: binary64 rounding\<close>

lemma pow2_powi: "pow2 e = 2 powi e"
  by (simp add: pow2_def power_int_def field_simps)

lemma pow2_pos [simp]: "0 < pow2 e"
  by (simp add: pow2_powi)

lemma pow2_nonzero [simp]: "pow2 e \<noteq> 0"
  using pow2_pos[of e] by linarith

lemma pow2_nonneg [simp]: "0 \<le> pow2 e"
  using pow2_pos[of e] by linarith

lemma pow2_not_le_0 [simp]: "\<not> pow2 e \<le> 0"
  using pow2_pos[of e] by linarith

lemma pow2_add: "pow2 (a + b) = pow2 a * pow2 b"
  by (simp add: pow2_powi power_int_add)

lemma pow2_diff: "pow2 (a - b) = pow2 a / pow2 b"
  by (simp add: pow2_powi power_int_diff)

lemma pow2_mono: "a \<le> b \<Longrightarrow> pow2 a \<le> pow2 b"
  by (simp add: pow2_powi power_int_increasing)

lemma pow2_strict_mono: "a < b \<Longrightarrow> pow2 a < pow2 b"
  by (simp add: pow2_powi power_int_strict_increasing)

lemma pow2_nat: "pow2 (int n) = 2 ^ n"
  by (simp add: pow2_def)

lemma pow2_0 [simp]: "pow2 0 = 1"
  by (simp add: pow2_def)

lemma pow2_numeral: "pow2 (numeral n) = 2 ^ numeral n"
  using pow2_nat[of "numeral n"] by simp

lemma pow2_neg_numeral: "pow2 (- numeral n) = 1 / 2 ^ numeral n"
  by (simp add: pow2_def)

lemma pow2_1 [simp]: "pow2 1 = 2"
  by (simp add: pow2_def)

lemma pow2_less_cancel: "pow2 a < pow2 b \<Longrightarrow> a < b"
  using pow2_mono[of b a] by (cases "a < b") auto

lemma floorlog_rat_bounds:
  assumes "0 < n"
  shows "pow2 (int (floorlog 2 n) - 1) \<le> of_nat n" "(of_nat n :: rat) < pow2 (int (floorlog 2 n))"
proof -
  from floorlog_bounds[of n 2] assms
  have a: "2 ^ (floorlog 2 n - 1) \<le> n" and b: "n < 2 ^ floorlog 2 n" by auto
  have "floorlog 2 n \<noteq> 0" using assms floorlog_eq_zero_iff[of 2 n] by auto
  then have pos: "0 < floorlog 2 n" by blast
  then have "int (floorlog 2 n) - 1 = int (floorlog 2 n - 1)" by linarith
  then have "pow2 (int (floorlog 2 n) - 1) = pow2 (int (floorlog 2 n - 1))" by (rule arg_cong)
  also have "\<dots> = of_nat (2 ^ (floorlog 2 n - 1))"
    unfolding pow2_nat by simp
  finally have "pow2 (int (floorlog 2 n) - 1) = of_nat (2 ^ (floorlog 2 n - 1))" .
  also have "\<dots> \<le> of_nat n" using a by (simp only: of_nat_le_iff)
  finally show "pow2 (int (floorlog 2 n) - 1) \<le> of_nat n" .
  have "(of_nat n :: rat) < of_nat (2 ^ floorlog 2 n)" using b by (simp only: of_nat_less_iff)
  then show "(of_nat n :: rat) < pow2 (int (floorlog 2 n))" by (simp add: pow2_nat)
qed

lemma ilog2_bounds:
  assumes "0 < x"
  shows "pow2 (ilog2 x) \<le> x \<and> x < pow2 (ilog2 x + 1)"
proof -
  obtain p q where pq: "quotient_of x = (p, q)" by (cases "quotient_of x")
  have q: "0 < q" using pq by (rule quotient_of_denom_pos)
  have x: "x = of_int p / of_int q" using pq by (rule quotient_of_div)
  have p: "0 < p" using assms q unfolding x by (simp add: zero_less_divide_iff)
  define Lp where "Lp = int (floorlog 2 (nat p))"
  define Lq where "Lq = int (floorlog 2 (nat q))"
  have pn: "(of_nat (nat p) :: rat) = of_int p" using p by simp
  have qn: "(of_nat (nat q) :: rat) = of_int q" using q by simp
  from floorlog_rat_bounds[of "nat p"] p pn
  have p1: "pow2 (Lp - 1) \<le> of_int p" and p2: "(of_int p :: rat) < pow2 Lp"
    by (simp_all add: Lp_def)
  from floorlog_rat_bounds[of "nat q"] q qn
  have q1: "pow2 (Lq - 1) \<le> of_int q" and q2: "(of_int q :: rat) < pow2 Lq"
    by (simp_all add: Lq_def)
  have qpos: "(0::rat) < of_int q" using q by simp
  have up: "x < pow2 (Lp - Lq + 1)"
  proof -
    have "x * of_int q = of_int p" unfolding x using qpos by simp
    also have "\<dots> < pow2 Lp" by (rule p2)
    also have "\<dots> = pow2 (Lp - Lq + 1) * pow2 (Lq - 1)" by (simp flip: pow2_add)
    also have "\<dots> \<le> pow2 (Lp - Lq + 1) * of_int q"
      using q1 by (intro mult_left_mono) (auto intro: less_imp_le)
    finally show ?thesis using qpos by simp
  qed
  have lo: "pow2 (Lp - Lq - 1) < x"
  proof -
    have "pow2 (Lp - Lq - 1) * of_int q < pow2 (Lp - Lq - 1) * pow2 Lq"
      using q2 by (intro mult_strict_left_mono) auto
    also have "\<dots> = pow2 (Lp - 1)" by (simp flip: pow2_add)
    also have "\<dots> \<le> of_int p" by (rule p1)
    also have "\<dots> = x * of_int q" unfolding x using qpos by simp
    finally show ?thesis using qpos by simp
  qed
  have e: "ilog2 x = (if pow2 (Lp - Lq) \<le> x then Lp - Lq else Lp - Lq - 1)"
    by (simp add: ilog2_def pq Lp_def Lq_def Let_def)
  show ?thesis
  proof (cases "pow2 (Lp - Lq) \<le> x")
    case True
    with e up show ?thesis by simp
  next
    case False
    with e lo show ?thesis by (simp add: less_imp_le)
  qed
qed

lemma ilog2_unique:
  assumes "pow2 e \<le> x" "x < pow2 (e + 1)"
  shows "ilog2 x = e"
proof -
  have x: "0 < x" using assms(1) pow2_pos[of e] by linarith
  from ilog2_bounds[OF x] have a: "pow2 (ilog2 x) \<le> x" and b: "x < pow2 (ilog2 x + 1)" by auto
  from assms(1) b have "pow2 e < pow2 (ilog2 x + 1)" by linarith
  then have 1: "e < ilog2 x + 1" by (rule pow2_less_cancel)
  from a assms(2) have "pow2 (ilog2 x) < pow2 (e + 1)" by linarith
  then have 2: "ilog2 x < e + 1" by (rule pow2_less_cancel)
  from 1 2 show ?thesis by simp
qed

lemma rne_error: "\<bar>of_int (rne q) - q\<bar> \<le> 1 / 2"
proof -
  have "of_int \<lfloor>q\<rfloor> \<le> q" "q < of_int \<lfloor>q\<rfloor> + 1" by linarith+
  then show ?thesis by (auto simp: rne_def Let_def)
qed

lemma rne_of_int [simp]: "rne (of_int n) = n"
  by (simp add: rne_def)


lemma fl_nonzero_def:
  "x \<noteq> 0 \<Longrightarrow>
   fl x = of_int (rne (x / pow2 (max (ilog2 \<bar>x\<bar>) (- 1022) - 52)))
            * pow2 (max (ilog2 \<bar>x\<bar>) (- 1022) - 52)"
  by (simp add: fl_def Let_def)

lemma fl_0 [simp]: "fl 0 = 0"
  by (simp add: fl_def)

lemma fl_error_unit:
  assumes "x \<noteq> 0"
  shows "\<bar>fl x - x\<bar> \<le> pow2 (max (ilog2 \<bar>x\<bar>) (- 1022) - 53)"
proof -
  define u where "u = pow2 (max (ilog2 \<bar>x\<bar>) (- 1022) - 52)"
  have u: "0 < u" by (simp add: u_def)
  have "fl x - x = (of_int (rne (x / u)) - x / u) * u"
    using u by (simp add: fl_nonzero_def[OF assms] u_def algebra_simps)
  then have "\<bar>fl x - x\<bar> = \<bar>of_int (rne (x / u)) - x / u\<bar> * u"
    using u by (simp add: abs_mult)
  also have "\<dots> \<le> (1 / 2) * u"
    using rne_error[of "x / u"] u by (intro mult_right_mono) auto
  also have "\<dots> = pow2 (max (ilog2 \<bar>x\<bar>) (- 1022) - 53)"
  proof -
    have "max (ilog2 \<bar>x\<bar>) (- 1022) - 52 = (max (ilog2 \<bar>x\<bar>) (- 1022) - 53) + 1" by simp
    then have "u = pow2 (max (ilog2 \<bar>x\<bar>) (- 1022) - 53) * pow2 1"
      unfolding u_def by (simp only: pow2_add)
    then show ?thesis by simp
  qed
  finally show ?thesis .
qed

lemma fl_rel_error:
  assumes "pow2 (- 1022) \<le> \<bar>x\<bar>"
  shows "\<bar>fl x - x\<bar> \<le> \<bar>x\<bar> / 2 ^ 53"
proof -
  have x0: "x \<noteq> 0" using assms pow2_pos[of "- 1022"] by auto
  then have ax: "0 < \<bar>x\<bar>" by simp
  from ilog2_bounds[OF ax] have lo: "pow2 (ilog2 \<bar>x\<bar>) \<le> \<bar>x\<bar>"
    and hi: "\<bar>x\<bar> < pow2 (ilog2 \<bar>x\<bar> + 1)" by auto
  from assms hi have "pow2 (- 1022) < pow2 (ilog2 \<bar>x\<bar> + 1)" by linarith
  then have "- 1022 < ilog2 \<bar>x\<bar> + 1" by (rule pow2_less_cancel)
  then have m: "max (ilog2 \<bar>x\<bar>) (- 1022) = ilog2 \<bar>x\<bar>" by simp
  have "\<bar>fl x - x\<bar> \<le> pow2 (ilog2 \<bar>x\<bar> - 53)"
    using fl_error_unit[OF x0] unfolding m .
  also have "\<dots> = pow2 (ilog2 \<bar>x\<bar>) / 2 ^ 53"
    by (simp only: pow2_diff pow2_numeral)
  also have "\<dots> \<le> \<bar>x\<bar> / 2 ^ 53"
    using lo by (simp add: divide_right_mono)
  finally show ?thesis .
qed

lemma fl_exact:
  assumes "\<bar>m\<bar> < 2 ^ 53" "- 1074 \<le> k"
  shows "fl (of_int m * pow2 k) = of_int m * pow2 k"
proof (cases "m = 0")
  case True
  then show ?thesis by simp
next
  case False
  define x where "x = (of_int m :: rat) * pow2 k"
  have x0: "x \<noteq> 0" using False pow2_pos[of k] by (simp add: x_def)
  then have ax: "0 < \<bar>x\<bar>" by simp
  define e where "e = max (ilog2 \<bar>x\<bar>) (- 1022)"
  have ek: "e - 52 \<le> k"
  proof (cases "ilog2 \<bar>x\<bar> \<le> - 1022")
    case True
    then show ?thesis using assms(2) by (simp add: e_def)
  next
    case False
    then have e: "e = ilog2 \<bar>x\<bar>" by (simp add: e_def)
    have "pow2 e \<le> \<bar>x\<bar>" using ilog2_bounds[OF ax] e by simp
    also have "\<bar>x\<bar> = of_int \<bar>m\<bar> * pow2 k"
      using pow2_pos[of k] by (simp add: x_def abs_mult)
    also have "\<dots> < 2 ^ 53 * pow2 k"
    proof -
      have "(of_int \<bar>m\<bar> :: rat) < of_int (2 ^ 53)" using assms(1) by (simp only: of_int_less_iff)
      then show ?thesis using pow2_pos[of k] by simp
    qed
    also have "\<dots> = pow2 (53 + k)" by (simp only: pow2_add pow2_numeral)
    finally have "e < 53 + k" by (rule pow2_less_cancel)
    then show ?thesis by simp
  qed
  define j where "j = nat (k - (e - 52))"
  have kj: "k = (e - 52) + int j" using ek by (simp add: j_def)
  have "x / pow2 (e - 52) = of_int m * pow2 (int j)"
    unfolding x_def kj pow2_add by simp
  also have "\<dots> = of_int (m * 2 ^ j)" by (simp add: pow2_nat)
  finally have q: "x / pow2 (e - 52) = of_int (m * 2 ^ j)" .
  have "fl x = of_int (rne (x / pow2 (e - 52))) * pow2 (e - 52)"
    using fl_nonzero_def[OF x0] by (simp add: e_def)
  also have "\<dots> = of_int (m * 2 ^ j) * pow2 (e - 52)"
    unfolding q by (simp only: rne_of_int)
  also have "\<dots> = x / pow2 (e - 52) * pow2 (e - 52)" unfolding q ..
  also have "\<dots> = x" by simp
  finally show ?thesis unfolding x_def .
qed


lemma round64_Fin:
  assumes "\<bar>fl x\<bar> < pow2 1024"
  shows "round64 x = Fin (fl x)"
proof (cases "fl x = 0")
  case True
  then show ?thesis by (simp add: round64_def)
next
  case False
  then have "0 < \<bar>fl x\<bar>" by simp
  from ilog2_bounds[OF this] assms have "pow2 (ilog2 \<bar>fl x\<bar>) < pow2 1024" by linarith
  then have "ilog2 \<bar>fl x\<bar> < 1024" by (rule pow2_less_cancel)
  with False show ?thesis by (simp add: round64_def Let_def)
qed

lemma round64_exact:
  assumes "\<bar>m\<bar> < 2 ^ 53" "- 1074 \<le> k" "k \<le> 971"
  shows "round64 (of_int m * pow2 k) = Fin (of_int m * pow2 k)"
proof -
  have "\<bar>(of_int m :: rat) * pow2 k\<bar> = of_int \<bar>m\<bar> * pow2 k"
    by (simp add: abs_mult)
  also have "\<dots> \<le> of_int \<bar>m\<bar> * pow2 971"
    using assms(3) by (intro mult_left_mono pow2_mono) auto
  also have "\<dots> < 2 ^ 53 * pow2 971"
  proof -
    have "(of_int \<bar>m\<bar> :: rat) < of_int (2 ^ 53)" using assms(1) by (simp only: of_int_less_iff)
    then show ?thesis by simp
  qed
  also have "\<dots> = pow2 1024"
  proof -
    have "(2::rat) ^ 53 * pow2 971 = pow2 (53 + 971)" by (simp only: pow2_add pow2_numeral)
    then show ?thesis by simp
  qed
  finally have "\<bar>fl (of_int m * pow2 k)\<bar> < pow2 1024"
    by (simp only: fl_exact[OF assms(1,2)])
  from round64_Fin[OF this] show ?thesis by (simp only: fl_exact[OF assms(1,2)])
qed

lemma round64_of_int:
  assumes "\<bar>n\<bar> < 2 ^ 53"
  shows "round64 (of_int n) = Fin (of_int n)"
  using round64_exact[OF assms, of 0] by simp

lemma float64_of_int_exact:
  "\<bar>n\<bar> < 2 ^ 53 \<Longrightarrow> float64_of_int n = Fin (of_int n)"
  by (simp add: float64_of_int_def round64_of_int)

lemma round64_bounds:
  assumes "pow2 (- 1022) \<le> x" "x \<le> pow2 1023"
  shows "\<exists>y. round64 x = Fin y \<and> x - x / 2 ^ 53 \<le> y \<and> y \<le> x + x / 2 ^ 53"
proof -
  have x: "0 < x" using assms(1) pow2_pos[of "- 1022"] by linarith
  then have ax: "\<bar>x\<bar> = x" by simp
  from fl_rel_error[of x] assms(1) ax have e: "\<bar>fl x - x\<bar> \<le> x / 2 ^ 53" by simp
  then have lo: "x - x / 2 ^ 53 \<le> fl x" and hi: "fl x \<le> x + x / 2 ^ 53" by linarith+
  have "x / 2 ^ 53 \<le> x" using x by (simp add: field_simps)
  with lo have "0 \<le> fl x" by linarith
  moreover have "fl x < pow2 1024"
  proof -
    have "x / 2 ^ 53 < x" using x by (simp add: field_simps)
    with hi have "fl x < x + x" by linarith
    also have "\<dots> \<le> pow2 1023 + pow2 1023" using assms(2) by linarith
    also have "\<dots> = pow2 (1023 + 1)" by (simp only: pow2_add) simp
    finally show ?thesis by simp
  qed
  ultimately have "\<bar>fl x\<bar> < pow2 1024" by simp
  from round64_Fin[OF this] lo hi show ?thesis by blast
qed

lemma trunc_nonneg: "0 \<le> q \<Longrightarrow> trunc q = \<lfloor>q\<rfloor>"
  by (simp add: trunc_def)

lemma int_of_float64_Fin:
  "0 \<le> q \<Longrightarrow> q < 2 ^ 63 \<Longrightarrow> int_of_float64 conv (Fin q) = \<lfloor>q\<rfloor>"
proof -
  assume q: "0 \<le> q" "q < 2 ^ 63"
  have "\<lfloor>q\<rfloor> < 2 ^ 63"
  proof -
    have "of_int \<lfloor>q\<rfloor> \<le> q" by simp
    with q(2) have "(of_int \<lfloor>q\<rfloor> :: rat) < of_int (2 ^ 63)" by simp
    then show ?thesis by (simp only: of_int_less_iff)
  qed
  moreover have "0 \<le> \<lfloor>q\<rfloor>" using q(1) by simp
  ultimately show ?thesis using q(1) by (simp add: int_of_float64_def trunc_def)
qed

lemma int_of_float64_range:
  "- (2 ^ 63) \<le> int_of_float64 conv a \<and> int_of_float64 conv a < 2 ^ 63"
proof -
  have s: "- (2 ^ 63) \<le> sint (conv a) \<and> sint (conv a) < 2 ^ 63"
    using sint_range_size[of "conv a"] by (simp add: word_size)
  show ?thesis
    by (cases a) (use s in \<open>auto simp: int_of_float64_def\<close>)
qed


section \<open>Lemmas: the glyph grid\<close>

lemma round64_numeral:
  "(numeral n :: int) < 2 ^ 53 \<Longrightarrow> round64 (numeral n) = Fin (numeral n)"
  using round64_of_int[of "numeral n"] by simp

lemma round64_half:
  assumes "\<bar>n\<bar> < 2 ^ 53"
  shows "round64 (of_int n / 2) = Fin (of_int n / 2)"
proof -
  have "pow2 (- 1) = 1 / 2" by (simp add: pow2_def)
  with round64_exact[OF assms, of "- 1"] show ?thesis by simp
qed

lemma round64_bounds_num:
  assumes "pow2 (- 1022) \<le> x" "x \<le> pow2 1023"
  shows "\<exists>y. round64 x = Fin y \<and> x - x / 9007199254740992 \<le> y
           \<and> y \<le> x + x / 9007199254740992"
  using round64_bounds[OF assms] by simp

lemma float64_of_int_bounds:
  assumes "0 < n" "n < 2 ^ 63"
  shows "\<exists>y. float64_of_int n = Fin y \<and> of_int n - of_int n / 9007199254740992 \<le> y
           \<and> y \<le> of_int n + of_int n / 9007199254740992"
proof -
  have 1: "pow2 (- 1022) \<le> of_int n"
  proof -
    have "pow2 (- 1022) \<le> pow2 0" by (rule pow2_mono) simp
    also have "\<dots> \<le> of_int n" using assms(1) by simp
    finally show ?thesis .
  qed
  have 2: "of_int n \<le> pow2 1023"
  proof -
    have "(of_int n :: rat) \<le> of_int (2 ^ 63)" using assms(2) by (simp only: of_int_le_iff)
    also have "\<dots> = pow2 63" by (simp add: pow2_numeral)
    also have "\<dots> \<le> pow2 1023" by (rule pow2_mono) simp
    finally show ?thesis .
  qed
  from round64_bounds_num[OF 1 2] show ?thesis by (simp add: float64_of_int_def)
qed

lemma capHeight_le:
  assumes "1 \<le> W" "W \<le> 500" "H < 2 ^ 63"
  shows "fst (capHeight pf (W, H)) \<le> 500 \<and> snd (capHeight pf (W, H)) \<le> 500"
proof (cases "H > 500")
  case False
  with assms show ?thesis by (simp add: capHeight_def MaxASCIIDimension_def)
next
  case True
  then have H: "0 < H" "501 \<le> H" by simp_all
  from float64_of_int_bounds[OF H(1) assms(3)] obtain hf where
    hf: "float64_of_int H = Fin hf" and hf1: "of_int H - of_int H / 9007199254740992 \<le> hf"
    and hf2: "hf \<le> of_int H + of_int H / 9007199254740992" by blast
  have Hr: "(501::rat) \<le> of_int H" using H(2) by (simp add: of_int_le_iff[symmetric] del: of_int_le_iff)
  have Hr2: "(of_int H :: rat) \<le> 9223372036854775808"
  proof -
    have "(of_int H :: rat) \<le> of_int (2 ^ 63)" using assms(3) by (simp only: of_int_le_iff)
    then show ?thesis by simp
  qed
  have hf_lo: "(5009 / 10 :: rat) \<le> hf" using hf1 Hr by linarith
  have hf_hi: "hf \<le> 18446744073709551616" using hf2 Hr2 by linarith
  have hf_pos: "0 < hf" using hf_lo by linarith
  have W500: "float64_of_int 500 = Fin 500"
    using float64_of_int_exact[of 500] by simp
  have WW: "float64_of_int W = Fin (of_int W)"
    using float64_of_int_exact[of W] assms(1,2) by simp
  define x where "x = 500 / hf"
  have x_hi: "x \<le> 5000 / 5009"
  proof -
    have "500 / hf \<le> 500 / (5009 / 10)"
      using hf_lo by (intro divide_left_mono) auto
    then show ?thesis by (simp add: x_def)
  qed
  have x_lo: "500 / 18446744073709551616 \<le> x"
    unfolding x_def using hf_hi hf_pos by (intro divide_left_mono) auto
  have x1: "pow2 (- 1022) \<le> x"
  proof -
    have "pow2 (- 1022) \<le> pow2 (- 64)" by (rule pow2_mono) simp
    also have "\<dots> = 1 / 2 ^ 64" by (simp only: pow2_neg_numeral)
    also have "\<dots> \<le> 500 / 18446744073709551616" by simp
    finally show ?thesis using x_lo by linarith
  qed
  have x2: "x \<le> pow2 1023"
  proof -
    have "x \<le> pow2 0" using x_hi by simp
    also have "\<dots> \<le> pow2 1023" by (rule pow2_mono) simp
    finally show ?thesis .
  qed
  from round64_bounds_num[OF x1 x2] obtain s where
    s: "round64 x = Fin s" and s1: "x - x / 9007199254740992 \<le> s"
    and s2: "s \<le> x + x / 9007199254740992" by blast
  have scale: "f_div (float64_of_int 500) (float64_of_int H) = Fin s"
    using hf_pos s by (simp add: W500 hf x_def)
  have s_hi: "s \<le> 999 / 1000" using s2 x_hi by linarith
  have s_lo: "1 / 18446744073709551616 \<le> s" using s1 x_lo by linarith
  define z where "z = of_int W * s"
  have Wr: "(1::rat) \<le> of_int W" "(of_int W :: rat) \<le> 500"
    using assms(1,2) by (simp_all add: of_int_le_iff[symmetric] del: of_int_le_iff)
  have z_hi: "z \<le> 500 * (999 / 1000)"
    unfolding z_def using Wr s_hi s_lo by (intro mult_mono) auto
  have z_lo: "1 / 18446744073709551616 \<le> z"
  proof -
    have "0 \<le> s" using s_lo by linarith
    then have "1 * s \<le> of_int W * s" using Wr(1) by (intro mult_right_mono)
    then have "s \<le> z" by (simp add: z_def)
    with s_lo show ?thesis by linarith
  qed
  have z1: "pow2 (- 1022) \<le> z"
  proof -
    have "pow2 (- 1022) \<le> pow2 (- 64)" by (rule pow2_mono) simp
    also have "\<dots> = 1 / 18446744073709551616" by (simp add: pow2_neg_numeral)
    finally show ?thesis using z_lo by linarith
  qed
  have z2: "z \<le> pow2 1023"
  proof -
    have "z \<le> pow2 9" using z_hi by (simp add: pow2_numeral)
    also have "\<dots> \<le> pow2 1023" by (rule pow2_mono) simp
    finally show ?thesis .
  qed
  from round64_bounds_num[OF z1 z2] obtain y where
    y: "round64 z = Fin y" and y1: "z - z / 9007199254740992 \<le> y"
    and y2: "y \<le> z + z / 9007199254740992" by blast
  have prod: "f_mul (float64_of_int W) (Fin s) = Fin y"
    using y by (simp add: WW z_def)
  have y_hi: "y < 500" using y2 z_hi by linarith
  have y_lo: "0 \<le> y" using y1 z_lo by linarith
  have "int_of_float64 (conv_int pf) (Fin y) = \<lfloor>y\<rfloor>"
    using y_lo y_hi by (intro int_of_float64_Fin) auto
  moreover have "\<lfloor>y\<rfloor> \<le> 500"
  proof -
    have "\<lfloor>y\<rfloor> \<le> \<lfloor>500::rat\<rfloor>" using y_hi by (intro floor_mono) simp
    then show ?thesis by simp
  qed
  ultimately show ?thesis
    using True by (simp add: capHeight_def MaxASCIIDimension_def Let_def scale prod)
qed


lemma fixedHeight_range: "1 \<le> fixedHeight pf dx dy tw \<and> fixedHeight pf dx dy tw < 2 ^ 63"
  using int_of_float64_range[of "conv_int pf"
          "f_mul (float64_of_int tw) (f_div (float64_of_int dy) (float64_of_int dx))"]
  by (simp add: fixedHeight_def Let_def)

lemma capWidth_range:
  assumes "0 < W" "H < 2 ^ 63"
  shows "1 \<le> fst (capWidth pf (W, H)) \<and> fst (capWidth pf (W, H)) \<le> 500
         \<and> snd (capWidth pf (W, H)) < 2 ^ 63"
proof (cases "W > 500")
  case True
  then show ?thesis
    using int_of_float64_range[of "conv_int pf"
            "f_mul (float64_of_int H) (f_div (float64_of_int 500) (float64_of_int W))"]
    by (simp add: capWidth_def MaxASCIIDimension_def Let_def)
next
  case False
  with assms show ?thesis by (simp add: capWidth_def MaxASCIIDimension_def)
qed

lemma asciiDimensions_le:
  assumes "0 < tw"
  shows "fst (asciiDimensions pf dx dy tw) \<le> 500 \<and> snd (asciiDimensions pf dx dy tw) \<le> 500"
proof -
  obtain W H where wh: "capWidth pf (tw, fixedHeight pf dx dy tw) = (W, H)"
    by (cases "capWidth pf (tw, fixedHeight pf dx dy tw)")
  from capWidth_range[OF assms, of "fixedHeight pf dx dy tw" pf] fixedHeight_range[of pf dx dy tw] wh
  have "1 \<le> W" "W \<le> 500" "H < 2 ^ 63" by simp_all
  from capHeight_le[OF this, of pf] show ?thesis by (simp add: asciiDimensions_def wh)
qed

lemma f_div_half:
  assumes "0 < n" "n < 2 ^ 52"
  shows "f_div (float64_of_int n) (float64_of_int (2 * n)) = Fin (1 / 2)"
proof -
  have a: "float64_of_int n = Fin (of_int n)" using assms by (intro float64_of_int_exact) simp
  have b: "float64_of_int (2 * n) = Fin (of_int (2 * n))"
    using assms by (intro float64_of_int_exact) simp
  have n0: "(of_int n :: rat) \<noteq> 0" using assms(1) by simp
  have q: "(of_int n :: rat) / of_int (2 * n) = 1 / 2" using n0 by simp
  have "round64 (1 / 2) = Fin (1 / 2)" using round64_half[of 1] by simp
  then have "round64 (of_int n / of_int (2 * n)) = Fin (1 / 2)" by (simp only: q)
  moreover have "(of_int (2 * n) :: rat) \<noteq> 0" using n0 by simp
  ultimately show ?thesis unfolding a b by (simp del: of_int_mult)
qed

lemma f_mul_int_half:
  assumes "0 \<le> n" "n < 2 ^ 53"
  shows "f_mul (float64_of_int n) (Fin (1 / 2)) = Fin (of_int n / 2)"
    and "int_of_float64 conv (Fin (of_int n / 2)) = n div 2"
proof -
  have a: "float64_of_int n = Fin (of_int n)" using assms by (intro float64_of_int_exact) simp
  show "f_mul (float64_of_int n) (Fin (1 / 2)) = Fin (of_int n / 2)"
    using round64_half[of n] assms by (simp add: a)
  have f: "\<lfloor>(of_int n :: rat) / 2\<rfloor> = n div 2"
    using floor_divide_of_int_eq[of n 2, where ?'a = rat] by simp
  have "(of_int n :: rat) / 2 < 2 ^ 63"
  proof -
    have "(of_int n :: rat) < of_int (2 ^ 53)" using assms(2) by (simp only: of_int_less_iff)
    then show ?thesis by simp
  qed
  then show "int_of_float64 conv (Fin (of_int n / 2)) = n div 2"
    using assms(1) int_of_float64_Fin[of "of_int n / 2" conv] f by simp
qed

lemma fixedHeight_half:
  assumes "0 < n" "n < 2 ^ 52" "0 \<le> tw" "tw < 2 ^ 53"
  shows "fixedHeight pf (2 * n) n tw = (if tw div 2 < 1 then 1 else tw div 2)"
  using f_div_half[OF assms(1,2)] f_mul_int_half(1)[OF assms(3,4)]
    f_mul_int_half(2)[OF assms(3,4), of "conv_int pf"]
  by (simp add: fixedHeight_def Let_def)

lemma capWidth_1000:
  assumes "0 \<le> H" "H < 2 ^ 53"
  shows "capWidth pf (1000, H) = (500, H div 2)"
proof -
  have "f_div (float64_of_int 500) (float64_of_int (2 * 500)) = Fin (1 / 2)"
    by (rule f_div_half) simp_all
  then show ?thesis
    using f_mul_int_half[OF assms] f_mul_int_half(2)[OF assms, of "conv_int pf"]
    by (simp add: capWidth_def MaxASCIIDimension_def Let_def)
qed

lemma example_200_100:
  "fixedHeight pf 200 100 100 = 50"
  "asciiDimensions pf 200 100 100 = (100, 50)"
  "fixedHeight pf 200 100 1000 = 500"
  "asciiDimensions pf 200 100 1000 = (500, 250)"
  "fixedHeight pf 2 1 3 = 1"
proof -
  show a: "fixedHeight pf 200 100 100 = 50" using fixedHeight_half[of 100 100 pf] by simp
  show b: "fixedHeight pf 200 100 1000 = 500" using fixedHeight_half[of 100 1000 pf] by simp
  show "asciiDimensions pf 200 100 100 = (100, 50)"
    by (simp add: asciiDimensions_def a capWidth_def capHeight_def MaxASCIIDimension_def)
  show "asciiDimensions pf 200 100 1000 = (500, 250)"
    using capWidth_1000[of 500 pf]
    by (simp add: asciiDimensions_def b capHeight_def MaxASCIIDimension_def)
  show "fixedHeight pf 2 1 3 = 1" using fixedHeight_half[of 1 3 pf] by simp
qed


lemma floor_unique_scaled:
  fixes p :: rat
  assumes "0 < d" "of_int (n * d) \<le> p * of_int d" "p * of_int d < of_int ((n + 1) * d)"
  shows "\<lfloor>p\<rfloor> = n"
proof -
  have d: "(0::rat) < of_int d" using assms(1) by simp
  have "of_int n * of_int d \<le> p * of_int d" using assms(2) by simp
  then have lo: "of_int n \<le> p" using d by (simp only: mult_le_cancel_right_pos)
  have "p * of_int d < (of_int n + 1) * of_int d" using assms(3) by simp
  then have hi: "p < of_int n + 1" using d by (simp only: mult_less_cancel_right_pos)
  from lo hi show ?thesis by (simp add: floor_unique)
qed

lemma scaled_floor:
  fixes pf :: platform
  assumes "0 < dx" "dx < 2 ^ 53" "0 < dy" "0 < tw" "tw * dy < 2 ^ 51"
  defines "S \<equiv> int_of_float64 (conv_int pf)
             (f_mul (float64_of_int tw) (f_div (float64_of_int dy) (float64_of_int dx)))"
  shows "S = tw * dy div dx \<or> (dx dvd tw * dy \<and> S = tw * dy div dx - 1)"
proof -
  define N where "N = tw * dy"
  define n where "n = N div dx"
  define m where "m = N mod dx"
  have N: "N = n * dx + m" by (simp add: n_def m_def)
  have m: "0 \<le> m" "m < dx" using assms(1) by (simp_all add: m_def)
  have Npos: "1 \<le> N" using assms(3,4) unfolding N_def by (simp add: int_one_le_iff_zero_less)
  have Nhi: "N < 2 ^ 51" using assms(5) by (simp add: N_def)
  have dy_hi: "dy < 2 ^ 51"
  proof -
    have "dy * 1 \<le> dy * tw" using assms(3,4) by (intro mult_left_mono) auto
    then show ?thesis using assms(5) by (simp add: mult.commute)
  qed
  have tw_hi: "tw < 2 ^ 51"
  proof -
    have "tw * 1 \<le> tw * dy" using assms(3,4) by (intro mult_left_mono) auto
    then show ?thesis using assms(5) by simp
  qed
  have n0: "0 \<le> n" using Npos assms(1) by (simp add: n_def pos_imp_zdiv_nonneg_iff)
  have c_dx: "float64_of_int dx = Fin (of_int dx)"
    using assms(1,2) by (intro float64_of_int_exact) simp
  have c_dy: "float64_of_int dy = Fin (of_int dy)"
    using assms(3) dy_hi by (intro float64_of_int_exact) simp
  have c_tw: "float64_of_int tw = Fin (of_int tw)"
    using assms(4) tw_hi by (intro float64_of_int_exact) simp
  have dxr: "(1::rat) \<le> of_int dx" "(of_int dx :: rat) \<le> 9007199254740992"
    using assms(1,2) by (simp_all add: of_int_le_iff[symmetric] del: of_int_le_iff)
  have dyr: "(1::rat) \<le> of_int dy" "(of_int dy :: rat) \<le> 2251799813685248"
    using assms(3) dy_hi by (simp_all add: of_int_le_iff[symmetric] del: of_int_le_iff)
  have twr: "(1::rat) \<le> of_int tw" "(of_int tw :: rat) \<le> 2251799813685248"
    using assms(4) tw_hi by (simp_all add: of_int_le_iff[symmetric] del: of_int_le_iff)
  have "N \<le> 2251799813685247" using Nhi by simp
  then have "(of_int N :: rat) \<le> of_int 2251799813685247" by (simp only: of_int_le_iff)
  then have Nr2: "(of_int N :: rat) \<le> 2251799813685247" by simp
  have "(of_int 1 :: rat) \<le> of_int N" using Npos by (simp only: of_int_le_iff)
  then have Nr1: "(1::rat) \<le> of_int N" by simp
  note Nr = Nr1 Nr2
  define q :: rat where "q = of_int dy / of_int dx"
  have q_lo: "1 / 9007199254740992 \<le> q"
  proof -
    have "1 / 9007199254740992 \<le> 1 / (of_int dx :: rat)"
      using dxr by (intro divide_left_mono) auto
    also have "\<dots> \<le> of_int dy / of_int dx" using dxr dyr by (intro divide_right_mono) auto
    finally show ?thesis by (simp add: q_def)
  qed
  have q_hi: "q \<le> 2251799813685248"
  proof -
    have "of_int dy / of_int dx \<le> (of_int dy :: rat) / 1"
      using dxr dyr by (intro divide_left_mono) auto
    then show ?thesis using dyr by (simp add: q_def)
  qed
  have q1: "pow2 (- 1022) \<le> q"
  proof -
    have "pow2 (- 1022) \<le> pow2 (- 53)" by (rule pow2_mono) simp
    also have "\<dots> = 1 / 9007199254740992" by (simp add: pow2_neg_numeral)
    finally show ?thesis using q_lo by linarith
  qed
  have q2: "q \<le> pow2 1023"
  proof -
    have "q \<le> pow2 51" using q_hi by (simp add: pow2_numeral)
    also have "\<dots> \<le> pow2 1023" by (rule pow2_mono) simp
    finally show ?thesis .
  qed
  from round64_bounds_num[OF q1 q2] obtain r where
    r: "round64 q = Fin r" and r1: "q - q / 9007199254740992 \<le> r"
    and r2: "r \<le> q + q / 9007199254740992" by blast
  have ratio: "f_div (float64_of_int dy) (float64_of_int dx) = Fin r"
    using dxr r by (simp add: c_dx c_dy q_def)
  define E :: rat where "E = of_int tw * q"
  define z :: rat where "z = of_int tw * r"
  have tw0: "(0::rat) \<le> of_int tw" using twr by linarith
  have z_hi: "z \<le> E + E / 9007199254740992"
  proof -
    have "of_int tw * r \<le> of_int tw * (q + q / 9007199254740992)"
      using r2 tw0 by (rule mult_left_mono)
    then show ?thesis by (simp add: z_def E_def algebra_simps)
  qed
  have z_lo: "E - E / 9007199254740992 \<le> z"
  proof -
    have "of_int tw * (q - q / 9007199254740992) \<le> of_int tw * r"
      using r1 tw0 by (rule mult_left_mono)
    then show ?thesis by (simp add: z_def E_def algebra_simps)
  qed
  have E_lo: "1 / 9007199254740992 \<le> E"
  proof -
    have "0 \<le> q" using q_lo by linarith
    then have "1 * q \<le> of_int tw * q" using twr(1) by (intro mult_right_mono)
    then have "q \<le> E" by (simp add: E_def)
    with q_lo show ?thesis by linarith
  qed
  have E_hi: "E \<le> 2251799813685248 * 2251799813685248"
    unfolding E_def using twr q_hi q_lo by (intro mult_mono) auto
  have z1: "pow2 (- 1022) \<le> z"
  proof -
    have "pow2 (- 1022) \<le> pow2 (- 54)" by (rule pow2_mono) simp
    also have "\<dots> = 1 / 18014398509481984" by (simp add: pow2_neg_numeral)
    finally show ?thesis using z_lo E_lo by linarith
  qed
  have z2: "z \<le> pow2 1023"
  proof -
    have "z \<le> pow2 103" using z_hi E_hi by (simp add: pow2_numeral)
    also have "\<dots> \<le> pow2 1023" by (rule pow2_mono) simp
    finally show ?thesis .
  qed
  from round64_bounds_num[OF z1 z2] obtain p where
    p: "round64 z = Fin p" and p1: "z - z / 9007199254740992 \<le> p"
    and p2: "p \<le> z + z / 9007199254740992" by blast
  have prod: "f_mul (float64_of_int tw) (Fin r) = Fin p"
    using p by (simp add: c_tw z_def)
  have Edx: "E * of_int dx = of_int N"
    using dxr by (simp add: E_def q_def N_def)
  have p_hi: "p \<le> E + 3 * E / 9007199254740992" using p2 z_hi E_lo by linarith
  have p_lo: "E - 2 * E / 9007199254740992 \<le> p" using p1 z_lo E_lo by linarith
  have dx0: "(0::rat) \<le> of_int dx" using dxr by linarith
  have P_hi: "p * of_int dx \<le> of_int N + 3 * of_int N / 9007199254740992"
  proof -
    have "p * of_int dx \<le> (E + 3 * E / 9007199254740992) * of_int dx"
      using p_hi dx0 by (rule mult_right_mono)
    also have "\<dots> = E * of_int dx + 3 * (E * of_int dx) / 9007199254740992"
      by (simp add: algebra_simps)
    finally show ?thesis unfolding Edx .
  qed
  have P_lo: "of_int N - 2 * of_int N / 9007199254740992 \<le> p * of_int dx"
  proof -
    have "(E - 2 * E / 9007199254740992) * of_int dx \<le> p * of_int dx"
      using p_lo dx0 by (rule mult_right_mono)
    moreover have "(E - 2 * E / 9007199254740992) * of_int dx
        = E * of_int dx - 2 * (E * of_int dx) / 9007199254740992"
      by (simp add: algebra_simps)
    ultimately show ?thesis unfolding Edx by simp
  qed
  have P_hi': "p * of_int dx < of_int N + 1" using P_hi Nr by linarith
  have P_lo': "of_int N - 1 / 2 < p * of_int dx" using P_lo Nr by linarith
  have p0: "0 \<le> p" using p_lo E_lo by linarith
  have up: "p * of_int dx < of_int ((n + 1) * dx)"
  proof -
    have "N + 1 \<le> (n + 1) * dx" using N m by (simp add: algebra_simps)
    then have "(of_int (N + 1) :: rat) \<le> of_int ((n + 1) * dx)" by (simp only: of_int_le_iff)
    with P_hi' show ?thesis by simp
  qed
  have p_lt: "p < 2 ^ 63"
  proof -
    have "p * of_int dx < (of_int (n + 1)) * of_int dx" using up by simp
    then have "p < of_int (n + 1)" using assms(1) by (simp only: mult_less_cancel_right_pos of_int_0_less_iff)
    moreover have "n \<le> N"
    proof -
      have "n * 1 \<le> n * dx" using n0 assms(1) by (intro mult_left_mono) auto
      with N m show ?thesis by simp
    qed
    then have "n + 1 \<le> N + 1" by simp
    then have "(of_int (n + 1) :: rat) \<le> of_int (N + 1)" by (simp only: of_int_le_iff)
    ultimately show ?thesis using Nr by simp
  qed
  have conv: "int_of_float64 (conv_int pf) (Fin p) = \<lfloor>p\<rfloor>"
    using p0 p_lt by (rule int_of_float64_Fin)
  have fh: "S = \<lfloor>p\<rfloor>"
    by (simp add: S_def ratio prod conv)
  show ?thesis
  proof (cases "m = 0")
    case False
    then have "N \<ge> n * dx + 1" using N m by simp
    then have "(of_int (n * dx + 1) :: rat) \<le> of_int N" by (simp only: of_int_le_iff)
    then have "of_int (n * dx) \<le> p * of_int dx" using P_lo' by simp
    from floor_unique_scaled[OF assms(1) this up] have "\<lfloor>p\<rfloor> = n" .
    with fh show ?thesis by (simp add: n_def N_def)
  next
    case True
    then have dvd: "dx dvd tw * dy" by (simp add: m_def N_def mod_eq_0_iff_dvd)
    from True N have Nn: "N = n * dx" by simp
    show ?thesis
    proof (cases "of_int (n * dx) \<le> p * of_int dx")
      case True
      from floor_unique_scaled[OF assms(1) this up] have "\<lfloor>p\<rfloor> = n" .
      with fh show ?thesis by (simp add: n_def N_def)
    next
      case False
      then have hi2: "p * of_int dx < of_int (((n - 1) + 1) * dx)" by simp
      have "(n - 1) * dx \<le> N - 1" using Nn assms(1) by (simp add: algebra_simps)
      then have "(of_int ((n - 1) * dx) :: rat) \<le> of_int (N - 1)" by (simp only: of_int_le_iff)
      then have lo2: "of_int ((n - 1) * dx) \<le> p * of_int dx" using P_lo' by simp
      from floor_unique_scaled[OF assms(1) lo2 hi2] have "\<lfloor>p\<rfloor> = n - 1" .
      with fh dvd show ?thesis by (simp add: n_def N_def)
    qed
  qed
qed


lemma fixedHeight_floor:
  assumes "0 < dx" "dx < 2 ^ 53" "0 < dy" "0 < tw" "tw * dy < 2 ^ 51"
  shows "fixedHeight pf dx dy tw = max 1 (tw * dy div dx)
         \<or> (dx dvd tw * dy \<and> fixedHeight pf dx dy tw = max 1 (tw * dy div dx - 1))"
  using scaled_floor[OF assms, of pf] by (auto simp: fixedHeight_def Let_def max_def)

lemma capWidth_floor:
  assumes "500 < W" "W < 2 ^ 53" "0 < H" "H < 2 ^ 42"
  shows "fst (capWidth pf (W, H)) = 500
         \<and> (snd (capWidth pf (W, H)) = H * 500 div W
              \<or> (W dvd H * 500 \<and> snd (capWidth pf (W, H)) = H * 500 div W - 1))"
proof -
  have "H * 500 < 2 ^ 51" using assms(4) by simp
  from scaled_floor[OF _ assms(2) _ assms(3) this, of pf] assms(1)
  show ?thesis by (simp add: capWidth_def MaxASCIIDimension_def Let_def)
qed

lemma capHeight_floor:
  assumes "500 < H" "H < 2 ^ 53" "0 < W" "W \<le> 500"
  shows "snd (capHeight pf (W, H)) = 500
         \<and> (fst (capHeight pf (W, H)) = W * 500 div H
              \<or> (H dvd W * 500 \<and> fst (capHeight pf (W, H)) = W * 500 div H - 1))"
proof -
  have "W * 500 < 2 ^ 51" using assms(4) by simp
  from scaled_floor[OF _ assms(2) _ assms(3) this, of pf] assms(1)
  show ?thesis by (simp add: capHeight_def MaxASCIIDimension_def Let_def)
qed

lemma rne_unique:
  assumes "\<bar>q - of_int M\<bar> < 1 / 2"
  shows "rne q = M"
proof -
  have "of_int M - 1 / 2 < q" "q < of_int M + 1 / 2" using assms by linarith+
  then have "\<lfloor>q\<rfloor> = M \<or> \<lfloor>q\<rfloor> = M - 1" by linarith
  then show ?thesis
  proof
    assume f: "\<lfloor>q\<rfloor> = M"
    then have "q - of_int \<lfloor>q\<rfloor> < 1 / 2" using \<open>q < of_int M + 1 / 2\<close> by simp
    then show ?thesis using f by (simp add: rne_def Let_def)
  next
    assume f: "\<lfloor>q\<rfloor> = M - 1"
    then have "1 / 2 < q - of_int \<lfloor>q\<rfloor>" using \<open>of_int M - 1 / 2 < q\<close> by simp
    then show ?thesis using f by (simp add: rne_def Let_def)
  qed
qed

lemma fl_eval:
  assumes "pow2 (k + 52) \<le> x" "x < pow2 (k + 53)" "- 1074 \<le> k"
    "\<bar>x / pow2 k - of_int M\<bar> < 1 / 2"
  shows "fl x = of_int M * pow2 k"
proof -
  have x: "0 < x" using assms(1) pow2_pos[of "k + 52"] by linarith
  have "x < pow2 ((k + 52) + 1)" using assms(2) by (simp add: add.assoc)
  with assms(1) have "ilog2 x = k + 52" by (intro ilog2_unique)
  then have e: "max (ilog2 \<bar>x\<bar>) (- 1022) - 52 = k" using x assms(3) by simp
  have "fl x = of_int (rne (x / pow2 k)) * pow2 k"
    using x fl_nonzero_def[of x] unfolding e by simp
  with rne_unique[OF assms(4)] show ?thesis by simp
qed

lemma example_49:
  "fixedHeight pf 49 2 49 = 1"
proof -
  have a: "float64_of_int 49 = Fin 49" "float64_of_int 2 = Fin 2"
    using float64_of_int_exact[of 49] float64_of_int_exact[of 2] by simp_all
  have 1: "fl (2 / 49) = 5882252574524729 * pow2 (- 57)"
    using fl_eval[of "- 57" "2 / 49" 5882252574524729]
    by (simp add: pow2_neg_numeral)
  have r1: "round64 (2 / 49) = Fin (5882252574524729 / 144115188075855872)"
  proof -
    have "\<bar>fl (2 / 49)\<bar> < pow2 1024"
    proof -
      have "\<bar>fl (2 / 49)\<bar> < pow2 0" unfolding 1 by (simp add: pow2_neg_numeral)
      also have "\<dots> \<le> pow2 1024" by (rule pow2_mono) simp
      finally show ?thesis .
    qed
    from round64_Fin[OF this] show ?thesis unfolding 1 by (simp add: pow2_neg_numeral)
  qed
  have 2: "fl (288230376151711721 / 144115188075855872) = 9007199254740991 * pow2 (- 52)"
    using fl_eval[of "- 52" "288230376151711721 / 144115188075855872" 9007199254740991]
    by (simp add: pow2_neg_numeral)
  have r2: "round64 (288230376151711721 / 144115188075855872)
              = Fin (9007199254740991 / 4503599627370496)"
  proof -
    have "\<bar>fl (288230376151711721 / 144115188075855872)\<bar> < pow2 1"
      unfolding 2 by (simp add: pow2_neg_numeral)
    also have "pow2 1 \<le> pow2 1024" by (rule pow2_mono) simp
    finally have "\<bar>fl (288230376151711721 / 144115188075855872)\<bar> < pow2 1024" .
    from round64_Fin[OF this] show ?thesis unfolding 2 by (simp add: pow2_neg_numeral)
  qed
  have "\<lfloor>9007199254740991 / 4503599627370496 :: rat\<rfloor> = 1"
    by (rule floor_unique) simp_all
  then have 3: "int_of_float64 (conv_int pf) (Fin (9007199254740991 / 4503599627370496)) = 1"
    using int_of_float64_Fin[of "9007199254740991 / 4503599627370496" "conv_int pf"] by simp
  show ?thesis
    by (simp add: fixedHeight_def Let_def a r1 r2 3)
qed


section \<open>Glyph-grid sizing\<close>

text \<open>
  C2 (as amended). For an image of positive width \<open>dx\<close> and height \<open>dy\<close> and a positive
  \<open>targetWidth\<close>, the height of the grid before the cap is the \<open>float64\<close> product
  \<open>targetWidth \<times> (dy / dx)\<close> truncated towards zero, not rounded, and at least 1: for
  \<open>dx < 2\<^sup>5\<^sup>3\<close> and \<open>targetWidth \<times> dy < 2\<^sup>5\<^sup>1\<close> it is the integer quotient
  \<open>targetWidth \<times> dy div dx\<close>, or one less where \<open>dx\<close> divides the product and the
  rounding of the two operations falls short of the quotient (as for
  \<open>dx = 49\<close>, \<open>dy = 2\<close>, \<open>targetWidth = 49\<close>, which gives 1), and 1 if that is smaller.
  Then a width over 500 becomes 500 and the height is multiplied by \<open>500 / width\<close> and
  truncated; then a height over 500 becomes 500 and the width is multiplied by
  \<open>500 / height\<close> and truncated. Both final dimensions are at most 500. A 200 by 100
  image with target width 100 gives the height 50; with target width 1000 it gives the
  height 500 before the cap and 500 by 250 after it.
\<close>

theorem glyph_grid_sizing:
  assumes "0 < dx" "0 < dy" "0 < targetWidth"
  shows
    "asciiDimensions pf dx dy targetWidth =
       capHeight pf (capWidth pf (targetWidth, fixedHeight pf dx dy targetWidth))
     \<and> fst (asciiDimensions pf dx dy targetWidth) \<le> 500
     \<and> snd (asciiDimensions pf dx dy targetWidth) \<le> 500
     \<and> 1 \<le> fixedHeight pf dx dy targetWidth
     \<and> (dx < 2 ^ 53 \<and> targetWidth * dy < 2 ^ 51 \<longrightarrow>
          fixedHeight pf dx dy targetWidth = max 1 (targetWidth * dy div dx)
          \<or> (dx dvd targetWidth * dy
              \<and> fixedHeight pf dx dy targetWidth = max 1 (targetWidth * dy div dx - 1)))
     \<and> (\<forall>W H. W \<le> 500 \<longrightarrow> capWidth pf (W, H) = (W, H))
     \<and> (\<forall>W H. 500 < W \<and> W < 2 ^ 53 \<and> 0 < H \<and> H < 2 ^ 42 \<longrightarrow>
          fst (capWidth pf (W, H)) = 500
          \<and> (snd (capWidth pf (W, H)) = H * 500 div W
              \<or> (W dvd H * 500 \<and> snd (capWidth pf (W, H)) = H * 500 div W - 1)))
     \<and> (\<forall>W H. H \<le> 500 \<longrightarrow> capHeight pf (W, H) = (W, H))
     \<and> (\<forall>W H. 500 < H \<and> H < 2 ^ 53 \<and> 0 < W \<and> W \<le> 500 \<longrightarrow>
          snd (capHeight pf (W, H)) = 500
          \<and> (fst (capHeight pf (W, H)) = W * 500 div H
              \<or> (H dvd W * 500 \<and> fst (capHeight pf (W, H)) = W * 500 div H - 1)))
     \<and> fixedHeight pf 200 100 100 = 50
     \<and> asciiDimensions pf 200 100 100 = (100, 50)
     \<and> fixedHeight pf 200 100 1000 = 500
     \<and> asciiDimensions pf 200 100 1000 = (500, 250)
     \<and> fixedHeight pf 49 2 49 = 1"
proof -
  have 1: "asciiDimensions pf dx dy targetWidth =
       capHeight pf (capWidth pf (targetWidth, fixedHeight pf dx dy targetWidth))"
    by (simp add: asciiDimensions_def)
  note 2 = asciiDimensions_le[OF assms(3), of pf dx dy]
  have 3: "1 \<le> fixedHeight pf dx dy targetWidth"
    using fixedHeight_range[of pf dx dy targetWidth] by simp
  have 4: "dx < 2 ^ 53 \<and> targetWidth * dy < 2 ^ 51 \<longrightarrow>
          fixedHeight pf dx dy targetWidth = max 1 (targetWidth * dy div dx)
          \<or> (dx dvd targetWidth * dy
              \<and> fixedHeight pf dx dy targetWidth = max 1 (targetWidth * dy div dx - 1))"
    using fixedHeight_floor[OF assms(1) _ assms(2,3), of pf] by blast
  have 5: "\<forall>W H. W \<le> 500 \<longrightarrow> capWidth pf (W, H) = (W, H)"
    by (simp add: capWidth_def MaxASCIIDimension_def)
  have 6: "\<forall>W H. 500 < W \<and> W < 2 ^ 53 \<and> 0 < H \<and> H < 2 ^ 42 \<longrightarrow>
          fst (capWidth pf (W, H)) = 500
          \<and> (snd (capWidth pf (W, H)) = H * 500 div W
              \<or> (W dvd H * 500 \<and> snd (capWidth pf (W, H)) = H * 500 div W - 1))"
    using capWidth_floor[of _ _ pf] by blast
  have 7: "\<forall>W H. H \<le> 500 \<longrightarrow> capHeight pf (W, H) = (W, H)"
    by (simp add: capHeight_def MaxASCIIDimension_def)
  have 8: "\<forall>W H. 500 < H \<and> H < 2 ^ 53 \<and> 0 < W \<and> W \<le> 500 \<longrightarrow>
          snd (capHeight pf (W, H)) = 500
          \<and> (fst (capHeight pf (W, H)) = W * 500 div H
              \<or> (H dvd W * 500 \<and> fst (capHeight pf (W, H)) = W * 500 div H - 1))"
    using capHeight_floor[of _ _ pf] by blast
  from 1 2 3 4 5 6 7 8 example_200_100(1-4)[of pf] example_49[of pf]
  show ?thesis by blast
qed

text \<open>The theorem at a 3 by 2 image with target width 4 (the quotient \<open>8 / 3\<close> is
  truncated to 2), and the width cap at 1001 by 300.\<close>

theorem glyph_grid_sizing_witness:
  "(0::int) < 3 \<and> (0::int) < 2 \<and> (0::int) < 4
   \<and> fixedHeight zeroConv 3 2 4 = 2
   \<and> asciiDimensions zeroConv 3 2 4 = (4, 2)
   \<and> capWidth zeroConv (1001, 300) = (500, 149)"
proof -
  have h: "(0::int) < 3" "(0::int) < 2" "(0::int) < 4" by simp_all
  note t = glyph_grid_sizing[OF h, of zeroConv]
  from t have a: "fixedHeight zeroConv 3 2 4 = 2" by simp
  from t have c5: "\<forall>W H. W \<le> 500 \<longrightarrow> capWidth zeroConv (W, H) = (W, H)"
    and c7: "\<forall>W H. H \<le> 500 \<longrightarrow> capHeight zeroConv (W, H) = (W, H)" by blast+
  from t have "asciiDimensions zeroConv 3 2 4 =
       capHeight zeroConv (capWidth zeroConv (4, fixedHeight zeroConv 3 2 4))" by blast
  with a c5 c7 have b: "asciiDimensions zeroConv 3 2 4 = (4, 2)" by simp
  from t have "\<forall>W H. 500 < W \<and> W < 2 ^ 53 \<and> 0 < H \<and> H < 2 ^ 42 \<longrightarrow>
          fst (capWidth zeroConv (W, H)) = 500
          \<and> (snd (capWidth zeroConv (W, H)) = H * 500 div W
              \<or> (W dvd H * 500 \<and> snd (capWidth zeroConv (W, H)) = H * 500 div W - 1))"
    by blast
  from this[rule_format, of 1001 300]
  have c: "capWidth zeroConv (1001, 300) = (500, 149)"
    by (simp add: prod_eq_iff)
  from a b c show ?thesis by simp
qed

text \<open>C2 as stated fails: for a 2 by 1 image and target width 3 the product is
  exactly 1.5; rounding gives 2, the code gives 1.\<close>

theorem glyph_grid_rounding_counterexample:
  "fixedHeight zeroConv 2 1 3 = 1 \<and> max 1 (round ((3::rat) * (1 / 2))) = (2::int)"
  using example_200_100(5)[of zeroConv] by (simp add: round_def)

section \<open>Lemmas: transparency\<close>

declare rowLoop.simps [simp del] colLoop.simps [simp del]

lemma Set_RGBA_bounds [simp]: "sameBounds (Set_RGBA result x y c) img = sameBounds result img"
  by (simp add: Set_RGBA_def sameBounds_def)

lemma rowLoop_spec:
  assumes "sameBounds result img" "MinX img \<le> x" "MinY img \<le> y" "y < MaxY img"
  shows "sameBounds (rowLoop pf img tColor T y x result) img
         \<and> At (rowLoop pf img tColor T y x result) =
             (\<lambda>x' y'. if y' = y \<and> x \<le> x' \<and> x' < MaxX img
                      then RGBAModel_Convert (pixelColor pf tColor T (At img x' y'))
                      else At result x' y')"
  using assms
proof (induction pf img tColor T y x result rule: rowLoop.induct)
  case (1 pf img tColor T y x result)
  show ?case
  proof (cases "x < MaxX img")
    case False
    then show ?thesis using "1.prems"(1) by (subst (1 2) rowLoop.simps) (auto intro!: ext)
  next
    case True
    let ?r = "Set_RGBA result x y (pixelColor pf tColor T (At img x y))"
    have inb: "inBounds result x y"
      using True "1.prems" by (simp add: inBounds_def sameBounds_def)
    have sb: "sameBounds ?r img" using "1.prems"(1) by simp
    from "1.IH"[OF True sb] "1.prems"
    have IH: "sameBounds (rowLoop pf img tColor T y (x + 1) ?r) img"
      "At (rowLoop pf img tColor T y (x + 1) ?r) =
         (\<lambda>x' y'. if y' = y \<and> x + 1 \<le> x' \<and> x' < MaxX img
                  then RGBAModel_Convert (pixelColor pf tColor T (At img x' y'))
                  else At ?r x' y')"
      by simp_all
    have step: "rowLoop pf img tColor T y x result = rowLoop pf img tColor T y (x + 1) ?r"
      using True by (subst rowLoop.simps) simp
    have "At (rowLoop pf img tColor T y (x + 1) ?r) =
             (\<lambda>x' y'. if y' = y \<and> x \<le> x' \<and> x' < MaxX img
                      then RGBAModel_Convert (pixelColor pf tColor T (At img x' y'))
                      else At result x' y')"
      unfolding IH(2) using inb True by (auto simp: Set_RGBA_def intro!: ext)
    with IH(1) step show ?thesis by simp
  qed
qed

lemma colLoop_spec:
  assumes "sameBounds result img" "MinY img \<le> y"
  shows "sameBounds (colLoop pf img tColor T y result) img
         \<and> At (colLoop pf img tColor T y result) =
             (\<lambda>x' y'. if y \<le> y' \<and> y' < MaxY img \<and> MinX img \<le> x' \<and> x' < MaxX img
                      then RGBAModel_Convert (pixelColor pf tColor T (At img x' y'))
                      else At result x' y')"
  using assms
proof (induction pf img tColor T y result rule: colLoop.induct)
  case (1 pf img tColor T y result)
  show ?case
  proof (cases "y < MaxY img")
    case False
    then show ?thesis using "1.prems"(1) by (subst (1 2) colLoop.simps) (auto intro!: ext)
  next
    case True
    let ?r = "rowLoop pf img tColor T y (MinX img) result"
    from rowLoop_spec[OF "1.prems"(1) order_refl "1.prems"(2) True, of pf tColor T]
    have r: "sameBounds ?r img"
      "At ?r = (\<lambda>x' y'. if y' = y \<and> MinX img \<le> x' \<and> x' < MaxX img
                      then RGBAModel_Convert (pixelColor pf tColor T (At img x' y'))
                      else At result x' y')" by simp_all
    from "1.IH"[OF True r(1)] "1.prems"(2)
    have IH: "sameBounds (colLoop pf img tColor T (y + 1) ?r) img"
      "At (colLoop pf img tColor T (y + 1) ?r) =
             (\<lambda>x' y'. if y + 1 \<le> y' \<and> y' < MaxY img \<and> MinX img \<le> x' \<and> x' < MaxX img
                      then RGBAModel_Convert (pixelColor pf tColor T (At img x' y'))
                      else At ?r x' y')" by simp_all
    have step: "colLoop pf img tColor T y result = colLoop pf img tColor T (y + 1) ?r"
      using True by (subst colLoop.simps) simp
    have "At (colLoop pf img tColor T (y + 1) ?r) =
             (\<lambda>x' y'. if y \<le> y' \<and> y' < MaxY img \<and> MinX img \<le> x' \<and> x' < MaxX img
                      then RGBAModel_Convert (pixelColor pf tColor T (At img x' y'))
                      else At result x' y')"
      unfolding IH(2) r(2) using True by (auto intro!: ext)
    with IH(1) step show ?thesis by simp
  qed
qed

lemma handleTransparency_At:
  "At (handleTransparency pf img s t) x y =
     (if inBounds img x y
      then RGBAModel_Convert
             (pixelColor pf (substituteColor s) (alphaThresholdOf pf t) (At img x y))
      else RGBA8 0 0 0 0)"
  and handleTransparency_bounds: "sameBounds (handleTransparency pf img s t) img"
proof -
  have sb: "sameBounds (NewRGBA img) img" by (simp add: sameBounds_def NewRGBA_def)
  from colLoop_spec[OF sb order_refl, of pf "substituteColor s" "alphaThresholdOf pf t"]
  show "At (handleTransparency pf img s t) x y =
     (if inBounds img x y
      then RGBAModel_Convert
             (pixelColor pf (substituteColor s) (alphaThresholdOf pf t) (At img x y))
      else RGBA8 0 0 0 0)"
    and "sameBounds (handleTransparency pf img s t) img"
    by (auto simp: handleTransparency_def inBounds_def NewRGBA_def)
qed


end
